theory Spec2Isabelle
  imports Main "HOL-Library.Word" "HOL-Library.Multiset"
begin

unbundle bit_operations_syntax

section \<open>Machine types and error values\<close>

type_synonym u8 = "8 word"
type_synonym u16 = "16 word"
type_synonym u32 = "32 word"
type_synonym u64 = "64 word"

text \<open>
  The error codes the sources pass to \<open>libcerror_error_set\<close>, one constructor per
  (domain, code) pair that the modelled functions use. The specification names the
  kinds differently: its \<open>CapacityExceeded\<close> is the runtime error
  \<open>RUNTIME_VALUE_OUT_OF_BOUNDS\<close> ("maximum number of ... volumes reached"), its
  \<open>OutOfBounds\<close> is \<open>ARGUMENT_VALUE_OUT_OF_BOUNDS\<close>.
\<close>

datatype error =
    ARGUMENT_INVALID_VALUE
  | ARGUMENT_VALUE_OUT_OF_BOUNDS
  | ARGUMENT_UNSUPPORTED_VALUE
  | RUNTIME_VALUE_OUT_OF_BOUNDS
  | RUNTIME_VALUE_MISSING
  | RUNTIME_UNSUPPORTED_VALUE
  | RUNTIME_SET_FAILED
  | RUNTIME_APPEND_FAILED
  | RUNTIME_ABORT_REQUESTED
  | MEMORY_COPY_FAILED
  | MEMORY_SET_FAILED
  | IO_SEEK_FAILED
  | IO_READ_FAILED
  | IO_WRITE_FAILED
  | IO_GENERIC

section \<open>Extent store (fvdecheck\_extent)\<close>

text \<open>
  \<open>enum fvdecheck_extent_state\<close> and \<open>struct fvdecheck_extent\<close>. The four link
  pointers of the struct are not fields of the model: the two doubly-linked lists are
  the HOL lists \<open>pv_extent_list\<close> and \<open>lv_extent_list\<close> below, in head-to-tail order.
  After insertion the code writes only the link pointers of a node, so a node is the
  value of its data fields.
\<close>

datatype extent_state =
    EXTENT_STATE_UNKNOWN
  | EXTENT_STATE_FREE
  | EXTENT_STATE_ALLOCATED
  | EXTENT_STATE_RESERVED

record extent =
  physical_volume_index :: u32
  physical_block_start :: u64
  physical_block_count :: u64
  logical_volume_index :: u32
  logical_block_start :: u64
  state :: extent_state
  transaction_id :: u64
  metadata_block_index :: u32
  block_type :: u16
  reserved_description :: "string option"

record physical_volume_info =
  pv_uuid :: "u8 list"
  pv_size_in_blocks :: u64
  pv_extent_list :: "extent list"
  reserved_blocks :: u64
  allocated_blocks :: u64
  free_blocks :: u64

record logical_volume_info =
  lv_uuid :: "u8 list"
  lv_size_in_blocks :: u64
  lv_extent_list :: "extent list"
  mapped_blocks :: u64
  unmapped_blocks :: u64

text \<open>
  \<open>struct fvdecheck_volume_state\<close>. The arrays of 16 entries with their counters
  \<open>num_physical_volumes\<close> and \<open>num_logical_volumes\<close> are lists holding the entries
  in use; the counters are the lengths.
\<close>

record volume_state =
  physical_volumes :: "physical_volume_info list"
  logical_volumes :: "logical_volume_info list"
  block_size :: u32
  current_transaction_id :: u64
  current_metadata_block_index :: u32
  error_count :: u32
  warning_count :: u32
  total_extents :: u64

definition FVDECHECK_MAX_PHYSICAL_VOLUMES :: nat where
  "FVDECHECK_MAX_PHYSICAL_VOLUMES = 16"

definition FVDECHECK_MAX_LOGICAL_VOLUMES :: nat where
  "FVDECHECK_MAX_LOGICAL_VOLUMES = 16"

definition num_physical_volumes :: "volume_state \<Rightarrow> nat" where
  "num_physical_volumes vs = length (physical_volumes vs)"

definition num_logical_volumes :: "volume_state \<Rightarrow> nat" where
  "num_logical_volumes vs = length (logical_volumes vs)"

text \<open>\<open>fvdecheck_volume_state_initialize\<close>: the zeroed structure with block size 4096.\<close>

definition volume_state_initialize :: volume_state where
  "volume_state_initialize =
     \<lparr> physical_volumes = [], logical_volumes = [], block_size = 4096,
       current_transaction_id = 0, current_metadata_block_index = 0,
       error_count = 0, warning_count = 0, total_extents = 0 \<rparr>"

text \<open>\<open>fvdecheck_extent_initialize\<close>: the zeroed extent.\<close>

definition extent_initialize :: extent where
  "extent_initialize =
     \<lparr> physical_volume_index = 0, physical_block_start = 0, physical_block_count = 0,
       logical_volume_index = 0, logical_block_start = 0, state = EXTENT_STATE_UNKNOWN,
       transaction_id = 0, metadata_block_index = 0, block_type = 0,
       reserved_description = None \<rparr>"

text \<open>
  \<open>fvdecheck_volume_state_add_physical_volume\<close> and
  \<open>fvdecheck_volume_state_add_logical_volume\<close>: the new index is the old counter; at
  16 volumes the call fails and writes nothing.
\<close>

definition volume_state_add_physical_volume ::
  "volume_state \<Rightarrow> u8 list \<Rightarrow> u64 \<Rightarrow> error + (volume_state \<times> u32)" where
  "volume_state_add_physical_volume vs uuid size_in_blocks =
     (if num_physical_volumes vs \<ge> FVDECHECK_MAX_PHYSICAL_VOLUMES
      then Inl RUNTIME_VALUE_OUT_OF_BOUNDS
      else Inr (vs\<lparr> physical_volumes := physical_volumes vs @
                     [\<lparr> pv_uuid = take 16 uuid, pv_size_in_blocks = size_in_blocks,
                        pv_extent_list = [], reserved_blocks = 0,
                        allocated_blocks = 0, free_blocks = 0 \<rparr>] \<rparr>,
                of_nat (num_physical_volumes vs)))"

definition volume_state_add_logical_volume ::
  "volume_state \<Rightarrow> u8 list \<Rightarrow> u64 \<Rightarrow> error + (volume_state \<times> u32)" where
  "volume_state_add_logical_volume vs uuid size_in_blocks =
     (if num_logical_volumes vs \<ge> FVDECHECK_MAX_LOGICAL_VOLUMES
      then Inl RUNTIME_VALUE_OUT_OF_BOUNDS
      else Inr (vs\<lparr> logical_volumes := logical_volumes vs @
                     [\<lparr> lv_uuid = take 16 uuid, lv_size_in_blocks = size_in_blocks,
                        lv_extent_list = [], mapped_blocks = 0,
                        unmapped_blocks = 0 \<rparr>] \<rparr>,
                of_nat (num_logical_volumes vs)))"

text \<open>
  The walk of \<open>fvdecheck_insert_extent_physical\<close> from the list head: the new node
  goes before the first node whose start is greater, and at the tail when there is
  none (the empty list included).
\<close>

fun insert_by_physical_start :: "extent \<Rightarrow> extent list \<Rightarrow> extent list" where
  "insert_by_physical_start e [] = [e]"
| "insert_by_physical_start e (current # rest) =
     (if physical_block_start e < physical_block_start current
      then e # current # rest
      else current # insert_by_physical_start e rest)"

fun insert_by_logical_start :: "extent \<Rightarrow> extent list \<Rightarrow> extent list" where
  "insert_by_logical_start e [] = [e]"
| "insert_by_logical_start e (current # rest) =
     (if logical_block_start e < logical_block_start current
      then e # current # rest
      else current # insert_by_logical_start e rest)"

definition insert_extent_physical :: "volume_state \<Rightarrow> u32 \<Rightarrow> extent \<Rightarrow> volume_state" where
  "insert_extent_physical vs pv_index e =
     (if unat pv_index \<ge> num_physical_volumes vs then vs
      else let pv_info = physical_volumes vs ! unat pv_index in
        vs\<lparr> physical_volumes := (physical_volumes vs)
              [unat pv_index := pv_info\<lparr> pv_extent_list :=
                 insert_by_physical_start e (pv_extent_list pv_info) \<rparr>] \<rparr>)"

definition insert_extent_logical :: "volume_state \<Rightarrow> u32 \<Rightarrow> extent \<Rightarrow> volume_state" where
  "insert_extent_logical vs lv_index e =
     (if unat lv_index \<ge> num_logical_volumes vs then vs
      else let lv_info = logical_volumes vs ! unat lv_index in
        vs\<lparr> logical_volumes := (logical_volumes vs)
              [unat lv_index := lv_info\<lparr> lv_extent_list :=
                 insert_by_logical_start e (lv_extent_list lv_info) \<rparr>] \<rparr>)"

text \<open>The extents the three \<open>mark\<close> functions fill in before inserting.\<close>

definition reserved_extent :: "u32 \<Rightarrow> u64 \<Rightarrow> u64 \<Rightarrow> string \<Rightarrow> extent" where
  "reserved_extent pv_index block_start block_count description =
     extent_initialize\<lparr> physical_volume_index := pv_index,
       physical_block_start := block_start, physical_block_count := block_count,
       state := EXTENT_STATE_RESERVED, reserved_description := Some description \<rparr>"

definition free_extent :: "u32 \<Rightarrow> u64 \<Rightarrow> u64 \<Rightarrow> u64 \<Rightarrow> u32 \<Rightarrow> u16 \<Rightarrow> extent" where
  "free_extent pv_index block_start block_count tid mbi bt =
     extent_initialize\<lparr> physical_volume_index := pv_index,
       physical_block_start := block_start, physical_block_count := block_count,
       state := EXTENT_STATE_FREE, transaction_id := tid,
       metadata_block_index := mbi, block_type := bt \<rparr>"

definition allocated_extent ::
  "u32 \<Rightarrow> u64 \<Rightarrow> u64 \<Rightarrow> u32 \<Rightarrow> u64 \<Rightarrow> u64 \<Rightarrow> u32 \<Rightarrow> u16 \<Rightarrow> extent" where
  "allocated_extent pv_index phys_block_start block_count lv_index logical_start tid mbi bt =
     extent_initialize\<lparr> physical_volume_index := pv_index,
       physical_block_start := phys_block_start, physical_block_count := block_count,
       logical_volume_index := lv_index, logical_block_start := logical_start,
       state := EXTENT_STATE_ALLOCATED, transaction_id := tid,
       metadata_block_index := mbi, block_type := bt \<rparr>"

definition volume_state_mark_reserved ::
  "volume_state \<Rightarrow> u32 \<Rightarrow> u64 \<Rightarrow> u64 \<Rightarrow> string \<Rightarrow> error + volume_state" where
  "volume_state_mark_reserved vs pv_index block_start block_count description =
     (if unat pv_index \<ge> num_physical_volumes vs then Inl ARGUMENT_VALUE_OUT_OF_BOUNDS
      else let vs' = insert_extent_physical vs pv_index
                       (reserved_extent pv_index block_start block_count description)
           in Inr (vs'\<lparr> total_extents := total_extents vs' + 1 \<rparr>))"

definition volume_state_mark_free ::
  "volume_state \<Rightarrow> u32 \<Rightarrow> u64 \<Rightarrow> u64 \<Rightarrow> u64 \<Rightarrow> u32 \<Rightarrow> u16 \<Rightarrow> error + volume_state" where
  "volume_state_mark_free vs pv_index block_start block_count tid mbi bt =
     (if unat pv_index \<ge> num_physical_volumes vs then Inl ARGUMENT_VALUE_OUT_OF_BOUNDS
      else let vs' = insert_extent_physical vs pv_index
                       (free_extent pv_index block_start block_count tid mbi bt)
           in Inr (vs'\<lparr> total_extents := total_extents vs' + 1 \<rparr>))"

definition volume_state_mark_allocated ::
  "volume_state \<Rightarrow> u32 \<Rightarrow> u64 \<Rightarrow> u64 \<Rightarrow> u32 \<Rightarrow> u64 \<Rightarrow> u64 \<Rightarrow> u32 \<Rightarrow> u16
     \<Rightarrow> error + volume_state" where
  "volume_state_mark_allocated vs pv_index phys_block_start block_count lv_index
       logical_start tid mbi bt =
     (if unat pv_index \<ge> num_physical_volumes vs then Inl ARGUMENT_VALUE_OUT_OF_BOUNDS
      else if unat lv_index \<ge> num_logical_volumes vs then Inl ARGUMENT_VALUE_OUT_OF_BOUNDS
      else let e = allocated_extent pv_index phys_block_start block_count lv_index
                     logical_start tid mbi bt;
               vs' = insert_extent_logical (insert_extent_physical vs pv_index e) lv_index e
           in Inr (vs'\<lparr> total_extents := total_extents vs' + 1 \<rparr>))"

text \<open>
  The three lookups return a pointer to a node or \<open>NULL\<close>: an \<open>extent option\<close>.
  Each loop is a recursion over the list from its head; \<open>break\<close> is \<open>None\<close>.
\<close>

fun find_physical_walk :: "u64 \<Rightarrow> extent list \<Rightarrow> extent option" where
  "find_physical_walk block_number [] = None"
| "find_physical_walk block_number (current # rest) =
     (if block_number \<ge> physical_block_start current
         \<and> block_number < physical_block_start current + physical_block_count current
      then Some current
      else if physical_block_start current > block_number then None
      else find_physical_walk block_number rest)"

definition volume_state_find_physical_extent ::
  "volume_state \<Rightarrow> u32 \<Rightarrow> u64 \<Rightarrow> extent option" where
  "volume_state_find_physical_extent vs pv_index block_number =
     (if unat pv_index \<ge> num_physical_volumes vs then None
      else find_physical_walk block_number
             (pv_extent_list (physical_volumes vs ! unat pv_index)))"

fun find_logical_walk :: "u64 \<Rightarrow> extent list \<Rightarrow> extent option" where
  "find_logical_walk block_number [] = None"
| "find_logical_walk block_number (current # rest) =
     (if block_number \<ge> logical_block_start current
         \<and> block_number < logical_block_start current + physical_block_count current
      then Some current
      else if logical_block_start current > block_number then None
      else find_logical_walk block_number rest)"

definition volume_state_find_logical_extent ::
  "volume_state \<Rightarrow> u32 \<Rightarrow> u64 \<Rightarrow> extent option" where
  "volume_state_find_logical_extent vs lv_index block_number =
     (if unat lv_index \<ge> num_logical_volumes vs then None
      else find_logical_walk block_number
             (lv_extent_list (logical_volumes vs ! unat lv_index)))"

fun check_overlap_walk :: "u64 \<Rightarrow> u64 \<Rightarrow> extent list \<Rightarrow> extent option" where
  "check_overlap_walk block_start block_end [] = None"
| "check_overlap_walk block_start block_end (current # rest) =
     (let current_end = physical_block_start current + physical_block_count current in
      if block_start < current_end \<and> physical_block_start current < block_end
      then Some current
      else if physical_block_start current \<ge> block_end then None
      else check_overlap_walk block_start block_end rest)"

definition volume_state_check_overlap ::
  "volume_state \<Rightarrow> u32 \<Rightarrow> u64 \<Rightarrow> u64 \<Rightarrow> extent option" where
  "volume_state_check_overlap vs pv_index block_start block_count =
     (if unat pv_index \<ge> num_physical_volumes vs then None
      else check_overlap_walk block_start (block_start + block_count)
             (pv_extent_list (physical_volumes vs ! unat pv_index)))"


section \<open>Calling sequences\<close>

text \<open>
  A caller that issues the given \<open>add_physical_volume\<close> (or \<open>add_logical_volume\<close>)
  calls one after the other on the same volume state and records what each call
  returned. A failed call leaves the state as it was.
\<close>

fun add_each_physical_volume ::
  "volume_state \<Rightarrow> (u8 list \<times> u64) list \<Rightarrow> volume_state \<times> (error + u32) list" where
  "add_each_physical_volume vs [] = (vs, [])"
| "add_each_physical_volume vs ((uuid, size_in_blocks) # calls) =
     (case volume_state_add_physical_volume vs uuid size_in_blocks of
        Inl e \<Rightarrow> (let (vs', rs) = add_each_physical_volume vs calls in (vs', Inl e # rs))
      | Inr (vs1, i) \<Rightarrow> (let (vs', rs) = add_each_physical_volume vs1 calls in (vs', Inr i # rs)))"

fun add_each_logical_volume ::
  "volume_state \<Rightarrow> (u8 list \<times> u64) list \<Rightarrow> volume_state \<times> (error + u32) list" where
  "add_each_logical_volume vs [] = (vs, [])"
| "add_each_logical_volume vs ((uuid, size_in_blocks) # calls) =
     (case volume_state_add_logical_volume vs uuid size_in_blocks of
        Inl e \<Rightarrow> (let (vs', rs) = add_each_logical_volume vs calls in (vs', Inl e # rs))
      | Inr (vs1, i) \<Rightarrow> (let (vs', rs) = add_each_logical_volume vs1 calls in (vs', Inr i # rs)))"

text \<open>The array entry a successful add writes, and what the call at position \<open>i\<close> returns.\<close>

definition new_physical_volume :: "u8 list \<times> u64 \<Rightarrow> physical_volume_info" where
  "new_physical_volume c =
     \<lparr> pv_uuid = take 16 (fst c), pv_size_in_blocks = snd c, pv_extent_list = [],
       reserved_blocks = 0, allocated_blocks = 0, free_blocks = 0 \<rparr>"

definition new_logical_volume :: "u8 list \<times> u64 \<Rightarrow> logical_volume_info" where
  "new_logical_volume c =
     \<lparr> lv_uuid = take 16 (fst c), lv_size_in_blocks = snd c, lv_extent_list = [],
       mapped_blocks = 0, unmapped_blocks = 0 \<rparr>"

definition call_result :: "nat \<Rightarrow> error + u32" where
  "call_result i = (if i < 16 then Inr (of_nat i) else Inl RUNTIME_VALUE_OUT_OF_BOUNDS)"

definition seventeen_calls :: "(u8 list \<times> u64) list" where
  "seventeen_calls = map (\<lambda>i. (replicate 16 (of_nat i), 1000)) [0..<17]"

section \<open>Sequences of store calls\<close>

text \<open>
  A client of the extent store issues calls one after the other; the first failing call
  ends the sequence. \<open>physical_history\<close> and \<open>logical_history\<close> list, in call order,
  the extents the \<open>mark\<close> calls of a sequence create for one physical (logical)
  volume. \<open>pv_list_of\<close> and \<open>lv_list_of\<close> are the head-to-tail traversals of a
  volume's list.
\<close>

datatype store_call =
    AddPhysicalVolume "u8 list" u64
  | AddLogicalVolume "u8 list" u64
  | MarkReserved u32 u64 u64 string
  | MarkFree u32 u64 u64 u64 u32 u16
  | MarkAllocated u32 u64 u64 u32 u64 u64 u32 u16

fun store_call_apply :: "volume_state \<Rightarrow> store_call \<Rightarrow> error + volume_state" where
  "store_call_apply vs (AddPhysicalVolume uuid n) =
     map_sum id fst (volume_state_add_physical_volume vs uuid n)"
| "store_call_apply vs (AddLogicalVolume uuid n) =
     map_sum id fst (volume_state_add_logical_volume vs uuid n)"
| "store_call_apply vs (MarkReserved pv s c d) = volume_state_mark_reserved vs pv s c d"
| "store_call_apply vs (MarkFree pv s c tid mbi bt) = volume_state_mark_free vs pv s c tid mbi bt"
| "store_call_apply vs (MarkAllocated pv s c lv ls tid mbi bt) =
     volume_state_mark_allocated vs pv s c lv ls tid mbi bt"

fun store_calls_apply :: "volume_state \<Rightarrow> store_call list \<Rightarrow> error + volume_state" where
  "store_calls_apply vs [] = Inr vs"
| "store_calls_apply vs (c # cs) =
     (case store_call_apply vs c of Inl e \<Rightarrow> Inl e | Inr vs' \<Rightarrow> store_calls_apply vs' cs)"

fun marked_extent :: "store_call \<Rightarrow> extent list" where
  "marked_extent (MarkReserved pv s c d) = [reserved_extent pv s c d]"
| "marked_extent (MarkFree pv s c tid mbi bt) = [free_extent pv s c tid mbi bt]"
| "marked_extent (MarkAllocated pv s c lv ls tid mbi bt) =
     [allocated_extent pv s c lv ls tid mbi bt]"
| "marked_extent _ = []"

definition physical_history :: "store_call list \<Rightarrow> nat \<Rightarrow> extent list" where
  "physical_history cs i =
     filter (\<lambda>e. unat (physical_volume_index e) = i) (concat (map marked_extent cs))"

definition logical_history :: "store_call list \<Rightarrow> nat \<Rightarrow> extent list" where
  "logical_history cs j =
     filter (\<lambda>e. state e = EXTENT_STATE_ALLOCATED \<and> unat (logical_volume_index e) = j)
       (concat (map marked_extent cs))"

definition pv_list_of :: "volume_state \<Rightarrow> nat \<Rightarrow> extent list" where
  "pv_list_of vs i =
     (if i < num_physical_volumes vs then pv_extent_list (physical_volumes vs ! i) else [])"

definition lv_list_of :: "volume_state \<Rightarrow> nat \<Rightarrow> extent list" where
  "lv_list_of vs j =
     (if j < num_logical_volumes vs then lv_extent_list (logical_volumes vs ! j) else [])"

text \<open>Scenario S2 of the specification, for any provenance of the two allocations.\<close>

definition s2_calls :: "u64 \<Rightarrow> u32 \<Rightarrow> u16 \<Rightarrow> u64 \<Rightarrow> u32 \<Rightarrow> u16 \<Rightarrow> store_call list" where
  "s2_calls ta ma ba tb mb bb =
     [AddPhysicalVolume (replicate 16 0) 1000, AddLogicalVolume (replicate 16 1) 1000,
      MarkReserved 0 0 1 ''H'',
      MarkAllocated 0 10 5 0 0 ta ma ba,
      MarkAllocated 0 4 3 0 5 tb mb bb]"

definition s2_state :: "u64 \<Rightarrow> u32 \<Rightarrow> u16 \<Rightarrow> u64 \<Rightarrow> u32 \<Rightarrow> u16 \<Rightarrow> volume_state" where
  "s2_state ta ma ba tb mb bb =
     \<lparr> physical_volumes =
         [\<lparr> pv_uuid = replicate 16 0, pv_size_in_blocks = 1000,
            pv_extent_list = [reserved_extent 0 0 1 ''H'',
                              allocated_extent 0 4 3 0 5 tb mb bb,
                              allocated_extent 0 10 5 0 0 ta ma ba],
            reserved_blocks = 0, allocated_blocks = 0, free_blocks = 0 \<rparr>],
       logical_volumes =
         [\<lparr> lv_uuid = replicate 16 1, lv_size_in_blocks = 1000,
            lv_extent_list = [allocated_extent 0 10 5 0 0 ta ma ba,
                              allocated_extent 0 4 3 0 5 tb mb bb],
            mapped_blocks = 0, unmapped_blocks = 0 \<rparr>],
       block_size = 4096, current_transaction_id = 0, current_metadata_block_index = 0,
       error_count = 0, warning_count = 0, total_extents = 3 \<rparr>"

text \<open>
  The stored extents of a state, the closed-open intersection test on block numbers as
  the specification states it, and the extents whose range is non-empty and ends below
  \<open>2 ^ 64\<close>.
\<close>

definition stored_extents :: "volume_state \<Rightarrow> extent list" where
  "stored_extents vs = concat (map pv_extent_list (physical_volumes vs))"

definition ranges_intersect :: "nat \<Rightarrow> nat \<Rightarrow> nat \<Rightarrow> nat \<Rightarrow> bool" where
  "ranges_intersect s c s' c' \<longleftrightarrow> {s ..< s + c} \<inter> {s' ..< s' + c'} \<noteq> {}"

definition overlaps_query :: "u64 \<Rightarrow> u64 \<Rightarrow> extent \<Rightarrow> bool" where
  "overlaps_query s c e \<longleftrightarrow>
     ranges_intersect (unat s) (unat c)
       (unat (physical_block_start e)) (unat (physical_block_count e))"

definition some_stored_overlap :: "volume_state \<Rightarrow> u32 \<Rightarrow> u64 \<Rightarrow> u64 \<Rightarrow> bool" where
  "some_stored_overlap vs pv s c \<longleftrightarrow>
     (\<exists>e \<in> set (stored_extents vs). physical_volume_index e = pv \<and> overlaps_query s c e)"

definition extent_in_range :: "extent \<Rightarrow> bool" where
  "extent_in_range e \<longleftrightarrow> 0 < physical_block_count e
     \<and> unat (physical_block_start e) + unat (physical_block_count e) < 2 ^ 64"

definition c2_empty_query_calls :: "store_call list" where
  "c2_empty_query_calls = [AddPhysicalVolume (replicate 16 0) 1000, MarkReserved 0 0 10 ''H'']"

definition c2_empty_query_state :: volume_state where
  "c2_empty_query_state = projr (store_calls_apply volume_state_initialize c2_empty_query_calls)"

definition c2_empty_extent_calls :: "store_call list" where
  "c2_empty_extent_calls = [AddPhysicalVolume (replicate 16 0) 1000, MarkReserved 0 5 0 ''Z'']"

definition c2_empty_extent_state :: volume_state where
  "c2_empty_extent_state = projr (store_calls_apply volume_state_initialize c2_empty_extent_calls)"

definition c2_wrapping_calls :: "store_call list" where
  "c2_wrapping_calls = [AddPhysicalVolume (replicate 16 0) 1000, MarkReserved 0 0xFFFFFFFFFFFFFFFF 1 ''L'']"

definition c2_wrapping_state :: volume_state where
  "c2_wrapping_state = projr (store_calls_apply volume_state_initialize c2_wrapping_calls)"

section \<open>Block conversions\<close>

text \<open>
  \<open>fvdecheck_linux_sector_to_fvde_block\<close> and \<open>fvdecheck_fvde_block_to_linux_sector\<close>:
  64-bit unsigned products (they wrap) divided by the 32-bit block size, or by 512.
\<close>

definition linux_sector_to_fvde_block :: "u64 \<Rightarrow> u32 \<Rightarrow> u64" where
  "linux_sector_to_fvde_block sector bsize =
     (if bsize = 0 then 0 else (sector * 512) div ucast bsize)"

definition fvde_block_to_linux_sector :: "u64 \<Rightarrow> u32 \<Rightarrow> u64" where
  "fvde_block_to_linux_sector block bsize = (block * ucast bsize) div 512"

text \<open>
  The largest sector not exceeding \<open>s\<close> whose byte offset \<open>t * 512\<close> is a multiple of
  \<open>b\<close>, as the specification words the floored round trip.
\<close>

definition largest_aligned_sector :: "nat \<Rightarrow> nat \<Rightarrow> nat" where
  "largest_aligned_sector s b = Max {t \<in> {0..s}. b dvd t * 512}"

section \<open>Weak CRC-32 (dump\_handle)\<close>

text \<open>
  The two file-scope statics \<open>crc32_table\<close> and \<open>crc32_table_initialized\<close>, zero at
  program start.
\<close>

record crc32_statics =
  crc32_table :: "u32 list"
  crc32_table_initialized :: bool

definition crc32_statics_at_start :: crc32_statics where
  "crc32_statics_at_start = \<lparr> crc32_table = replicate 256 0, crc32_table_initialized = False \<rparr>"

text \<open>\<open>dump_handle_initialize_crc32_table\<close>: the bit loop, one table entry, the table loop.\<close>

definition crc32_bit_iteration :: "u32 \<Rightarrow> u32 \<Rightarrow> u32" where
  "crc32_bit_iteration polynomial checksum =
     (if checksum AND 1 \<noteq> 0 then polynomial XOR drop_bit 1 checksum
      else drop_bit 1 checksum)"

definition crc32_table_entry :: "u32 \<Rightarrow> nat \<Rightarrow> u32" where
  "crc32_table_entry polynomial table_index =
     (crc32_bit_iteration polynomial ^^ 8) (of_nat table_index)"

definition dump_handle_initialize_crc32_table :: "u32 \<Rightarrow> crc32_statics \<Rightarrow> crc32_statics" where
  "dump_handle_initialize_crc32_table polynomial st =
     \<lparr> crc32_table =
         foldl (\<lambda>table table_index.
                  table[table_index := crc32_table_entry polynomial table_index])
           (crc32_table st) [0..<256],
       crc32_table_initialized = True \<rparr>"

text \<open>
  \<open>dump_handle_calculate_weak_crc32\<close>: \<open>buffer\<close> holds the \<open>size\<close> bytes read. The
  table index is masked to eight bits, so the table read is in range.
\<close>

definition weak_crc32_byte :: "u32 list \<Rightarrow> u32 \<Rightarrow> u8 \<Rightarrow> u32" where
  "weak_crc32_byte table checksum byte =
     (let table_index = (checksum XOR ucast byte) AND 0x000000ff
      in table ! unat table_index XOR drop_bit 8 checksum)"

definition dump_handle_calculate_weak_crc32 ::
  "crc32_statics \<Rightarrow> u8 list \<Rightarrow> u32 \<Rightarrow> u32 \<times> crc32_statics" where
  "dump_handle_calculate_weak_crc32 st buffer initial_value =
     (let st' = (if \<not> crc32_table_initialized st
                 then dump_handle_initialize_crc32_table 0x82f63b78 st else st)
      in (foldl (weak_crc32_byte (crc32_table st')) initial_value buffer, st'))"

text \<open>The statics after any earlier checksum computations of the program.\<close>

definition crc32_statics_after :: "(u8 list \<times> u32) list \<Rightarrow> crc32_statics" where
  "crc32_statics_after earlier =
     foldl (\<lambda>st (buffer, initial_value).
              snd (dump_handle_calculate_weak_crc32 st buffer initial_value))
       crc32_statics_at_start earlier"

text \<open>
  The reference checksum in the words of the specification: a table of 256 entries
  built from the polynomial by the reflected construction (seed with the index; eight
  times: if the least significant bit is set, shift right by one and XOR the
  polynomial, else shift right by one), a running checksum that starts at the initial
  value, and per byte \<open>checksum = table[(checksum XOR b) AND 0xFF] XOR (checksum >> 8)\<close>.
\<close>

definition reference_table :: "u32 \<Rightarrow> u32 list" where
  "reference_table polynomial =
     map (\<lambda>i. ((\<lambda>c. if bit c 0 then drop_bit 1 c XOR polynomial else drop_bit 1 c) ^^ 8)
                (of_nat i))
       [0..<256]"

fun reference_crc :: "u32 list \<Rightarrow> u32 \<Rightarrow> u8 list \<Rightarrow> u32" where
  "reference_crc table checksum [] = checksum"
| "reference_crc table checksum (b # bs) =
     reference_crc table (table ! unat ((checksum XOR ucast b) AND 0xFF) XOR drop_bit 8 checksum) bs"

section \<open>Kernel keyring insertion (keyring\_handle)\<close>

text \<open>
  What \<open>keyring_handle_add_key\<close> gets from outside the program: whether the two
  \<open>snprintf\<close> calls, the two \<open>memory_copy\<close> calls and the \<open>memory_set\<close> call report
  success, what \<open>atoi\<close> returns for a keyring name, and the serial (negative on
  failure) that the \<open>add_key\<close> system call returns.
\<close>

record keyring_environment =
  format_uuid_ok :: bool
  format_description_ok :: bool
  copy_master_key_ok :: bool
  copy_tweak_key_ok :: bool
  atoi :: "string \<Rightarrow> int"
  add_key_serial :: int
  clear_key_ok :: bool

text \<open>The special keyring identifiers of \<open>keyutils.h\<close>.\<close>

definition KEY_SPEC_SESSION_KEYRING :: int where "KEY_SPEC_SESSION_KEYRING = - 3"

definition KEY_SPEC_USER_KEYRING :: int where "KEY_SPEC_USER_KEYRING = - 4"

definition KEY_SPEC_USER_SESSION_KEYRING :: int where "KEY_SPEC_USER_SESSION_KEYRING = - 5"

text \<open>
  What the function leaves behind: its return value, the contents of the 48-byte stack
  buffer \<open>combined_key\<close> at the moment of return (when the frame is released), and the
  payload and keyring handed to \<open>add_key\<close>, if the call was reached.
\<close>

record keyring_outcome =
  returned :: "error + unit"
  combined_key_at_return :: "u8 list"
  add_key_call :: "(u8 list \<times> int) option"

definition keyring_outcome_of ::
  "error + unit \<Rightarrow> u8 list \<Rightarrow> (u8 list \<times> int) option \<Rightarrow> keyring_outcome" where
  "keyring_outcome_of r k a =
     \<lparr> returned = r, combined_key_at_return = k, add_key_call = a \<rparr>"

text \<open>
  \<open>keyring_handle_add_key\<close> with \<open>HAVE_KEYUTILS_H\<close>. Pointer arguments are options
  (\<open>None\<close> is \<open>NULL\<close>); \<open>combined_key\<close> is the content the uninitialised stack buffer
  starts with. A \<open>memory_copy\<close> or \<open>memory_set\<close> that reports failure is taken to have
  written nothing.
\<close>

definition keyring_handle_add_key ::
  "keyring_environment \<Rightarrow> u8 list option \<Rightarrow> nat \<Rightarrow> u8 list option \<Rightarrow> nat
     \<Rightarrow> u8 list option \<Rightarrow> nat \<Rightarrow> string option \<Rightarrow> u8 list \<Rightarrow> keyring_outcome" where
  "keyring_handle_add_key env volume_master_key volume_master_key_size
       volume_tweak_key volume_tweak_key_size volume_uuid volume_uuid_size
       keyring_id combined_key =
     (if volume_master_key = None
        then keyring_outcome_of (Inl ARGUMENT_INVALID_VALUE) combined_key None
      else if volume_master_key_size \<noteq> 16
        then keyring_outcome_of (Inl ARGUMENT_VALUE_OUT_OF_BOUNDS) combined_key None
      else if volume_tweak_key = None
        then keyring_outcome_of (Inl ARGUMENT_INVALID_VALUE) combined_key None
      else if volume_tweak_key_size \<noteq> 32
        then keyring_outcome_of (Inl ARGUMENT_VALUE_OUT_OF_BOUNDS) combined_key None
      else if volume_uuid = None
        then keyring_outcome_of (Inl ARGUMENT_INVALID_VALUE) combined_key None
      else if volume_uuid_size \<noteq> 16
        then keyring_outcome_of (Inl ARGUMENT_VALUE_OUT_OF_BOUNDS) combined_key None
      else if \<not> format_uuid_ok env
        then keyring_outcome_of (Inl RUNTIME_SET_FAILED) combined_key None
      else if \<not> format_description_ok env
        then keyring_outcome_of (Inl RUNTIME_SET_FAILED) combined_key None
      else if \<not> copy_master_key_ok env
        then keyring_outcome_of (Inl MEMORY_COPY_FAILED) combined_key None
      else
        let combined_key1 = take 16 (the volume_master_key) @ drop 16 combined_key in
        if \<not> copy_tweak_key_ok env
          then keyring_outcome_of (Inl MEMORY_COPY_FAILED) combined_key1 None
        else
          let combined_key2 = take 16 combined_key1 @ take 32 (the volume_tweak_key);
              keyring_id_value =
                (case keyring_id of
                   None \<Rightarrow> KEY_SPEC_SESSION_KEYRING
                 | Some name \<Rightarrow>
                     if name = ''@s'' then KEY_SPEC_SESSION_KEYRING
                     else if name = ''@u'' then KEY_SPEC_USER_KEYRING
                     else if name = ''@us'' then KEY_SPEC_USER_SESSION_KEYRING
                     else atoi env name)
          in
          if keyring_id_value = 0
            then keyring_outcome_of (Inl ARGUMENT_UNSUPPORTED_VALUE) combined_key2 None
          else if add_key_serial env < 0
            then keyring_outcome_of (Inl RUNTIME_SET_FAILED) combined_key2
                   (Some (combined_key2, keyring_id_value))
          else if \<not> clear_key_ok env
            then keyring_outcome_of (Inl MEMORY_SET_FAILED) combined_key2
                   (Some (combined_key2, keyring_id_value))
          else keyring_outcome_of (Inr ()) (replicate 48 0)
                 (Some (combined_key2, keyring_id_value)))"

text \<open>
  A run in which the kernel refuses the key: all library calls succeed, \<open>add_key\<close>
  returns \<open>-1\<close>. The keys are the bytes 1 to 16 and 17 to 48.
\<close>

definition refusing_kernel :: keyring_environment where
  "refusing_kernel =
     \<lparr> format_uuid_ok = True, format_description_ok = True, copy_master_key_ok = True,
       copy_tweak_key_ok = True, atoi = (\<lambda>_. 0), add_key_serial = - 1,
       clear_key_ok = True \<rparr>"

definition sample_master_key :: "u8 list" where
  "sample_master_key = map of_nat [1..<17]"

definition sample_tweak_key :: "u8 list" where
  "sample_tweak_key = map of_nat [17..<49]"

section \<open>Byte streams, buffers and files (dump\_handle)\<close>

text \<open>
  The little-endian macros of \<open>byte_stream.h\<close>: \<open>le_word\<close> assembles a value from its
  bytes, least significant first, \<open>le_bytes n\<close> splits a value into \<open>n\<close> bytes.
\<close>

fun le_word :: "u8 list \<Rightarrow> 'a::len word" where
  "le_word [] = 0"
| "le_word (b # bs) = ucast b OR push_bit 8 (le_word bs)"

definition le_bytes :: "nat \<Rightarrow> 'a::len word \<Rightarrow> u8 list" where
  "le_bytes n v = map (\<lambda>i. ucast (drop_bit (8 * i) v)) [0..<n]"

text \<open>
  Memory as the code reaches it through a pointer: the byte at each index. For a heap
  buffer these are the bytes of the allocation and, behind them, whatever the heap holds
  there (\<open>behind\<close>). The code indexes its metadata buffers unchecked: a read past the
  allocation yields bytes of \<open>behind\<close>, a write past it changes them, and the function
  goes on. That such an access could fault is not represented.
\<close>

type_synonym memory = "nat \<Rightarrow> u8"

definition heap_buffer :: "u8 list \<Rightarrow> memory \<Rightarrow> memory" where
  "heap_buffer buffer behind =
     (\<lambda>index. if index < length buffer then buffer ! index
               else behind (index - length buffer))"

definition memory_get :: "memory \<Rightarrow> nat \<Rightarrow> nat \<Rightarrow> u8 list" where
  "memory_get m offset n = map m [offset..<offset + n]"

definition memory_put :: "memory \<Rightarrow> nat \<Rightarrow> u8 list \<Rightarrow> memory" where
  "memory_put m offset bytes =
     (\<lambda>index. if offset \<le> index \<and> index < offset + length bytes then bytes ! (index - offset)
               else m index)"

definition copy_to_uint32_little_endian :: "memory \<Rightarrow> nat \<Rightarrow> u32" where
  "copy_to_uint32_little_endian m offset = le_word (memory_get m offset 4)"

definition copy_to_uint64_little_endian :: "memory \<Rightarrow> nat \<Rightarrow> u64" where
  "copy_to_uint64_little_endian m offset = le_word (memory_get m offset 8)"

definition copy_from_uint32_little_endian :: "memory \<Rightarrow> nat \<Rightarrow> u32 \<Rightarrow> memory" where
  "copy_from_uint32_little_endian m offset v = memory_put m offset (le_bytes 4 v)"

definition copy_from_uint64_little_endian :: "memory \<Rightarrow> nat \<Rightarrow> u64 \<Rightarrow> memory" where
  "copy_from_uint64_little_endian m offset v = memory_put m offset (le_bytes 8 v)"

text \<open>
  A file is its byte sequence. \<open>lseek\<close> to an offset that is negative as \<open>off_t\<close>
  fails; \<open>read\<close> returns fewer bytes than asked when the file ends first, which the
  callers report as a read failure. \<open>file_put\<close> is a write at a position: a gap
  between the old end of the file and the position reads as zeros. Writes to the
  destination are taken to succeed.
\<close>

definition file_read :: "u8 list \<Rightarrow> u64 \<Rightarrow> nat \<Rightarrow> error + u8 list" where
  "file_read file offset n =
     (if 2 ^ 63 \<le> unat offset then Inl IO_SEEK_FAILED
      else if n \<le> length file - unat offset then Inr (take n (drop (unat offset) file))
      else Inl IO_READ_FAILED)"

definition file_put :: "u8 list \<Rightarrow> nat \<Rightarrow> u8 list \<Rightarrow> u8 list" where
  "file_put file position bytes =
     take position file @ replicate (position - length file) 0 @ bytes
       @ drop (position + length bytes) file"

definition file_write :: "u8 list \<Rightarrow> u64 \<Rightarrow> u8 list \<Rightarrow> error + u8 list" where
  "file_write file offset bytes =
     (if 2 ^ 63 \<le> unat offset then Inl IO_SEEK_FAILED
      else Inr (file_put file (unat offset) bytes))"

section \<open>Dump handle\<close>

text \<open>
  \<open>struct dump_handle\<close> without the file descriptors and the flags that only steer
  printing. \<open>dump_block_size\<close> is the field \<open>block_size\<close> (the name is taken by the
  volume state). A run of the dump owns the handle, the destination file and the
  checksum statics; the source is only read.
\<close>

record dump_handle =
  physical_volume_size :: u64
  dump_block_size :: u32
  metadata_size :: u32
  metadata_offsets :: "u64 list"
  encrypted_metadata1_offset :: u64
  encrypted_metadata2_offset :: u64
  encrypted_metadata_size :: u64
  best_metadata_only :: bool
  compact :: bool
  bytes_copied :: u64
  abort :: bool

record dump_run =
  handle :: dump_handle
  destination :: "u8 list"
  statics :: crc32_statics

definition dump_handle_initialize :: dump_handle where
  "dump_handle_initialize =
     \<lparr> physical_volume_size = 0, dump_block_size = 0, metadata_size = 0,
       metadata_offsets = replicate 4 0, encrypted_metadata1_offset = 0,
       encrypted_metadata2_offset = 0, encrypted_metadata_size = 0,
       best_metadata_only = False, compact = False, bytes_copied = 0, abort = False \<rparr>"


text \<open>
  \<open>dump_handle_read_metadata\<close>. The locals of the scan, the loop body for one copy
  once it is read, the loop, and the function. The buffer \<open>metadata_data\<close> is allocated
  once, with \<open>metadata_size\<close> bytes, and each copy is read into it; \<open>behind\<close> is the
  memory behind that allocation. The indices \<open>64 + actual_offset + 8\<close> and so on are
  32-bit unsigned sums, and no index is compared with \<open>metadata_size\<close>.
\<close>

record metadata_scan =
  highest_transaction_id :: u64
  best_metadata_index :: nat
  scan_encrypted_metadata_size :: u64
  scan_encrypted_metadata1_offset :: u64
  scan_encrypted_metadata2_offset :: u64

definition metadata_scan_start :: metadata_scan where
  "metadata_scan_start =
     \<lparr> highest_transaction_id = 0, best_metadata_index = 0,
       scan_encrypted_metadata_size = 0, scan_encrypted_metadata1_offset = 0,
       scan_encrypted_metadata2_offset = 0 \<rparr>"

definition read_metadata_copy :: "metadata_scan \<Rightarrow> nat \<Rightarrow> memory \<Rightarrow> metadata_scan" where
  "read_metadata_copy scan metadata_index metadata_data =
     (let transaction_identifier = copy_to_uint64_little_endian metadata_data 16 in
      if transaction_identifier > highest_transaction_id scan then
        let volume_groups_descriptor_offset =
              copy_to_uint32_little_endian metadata_data (64 + 156);
            scan1 = scan\<lparr> highest_transaction_id := transaction_identifier,
                          best_metadata_index := metadata_index \<rparr>
        in
        if volume_groups_descriptor_offset > 64 then
          let actual_offset = volume_groups_descriptor_offset - 64 in
          scan1\<lparr> scan_encrypted_metadata_size :=
                     copy_to_uint64_little_endian metadata_data
                       (unat (64 + actual_offset + 8)),
                 scan_encrypted_metadata1_offset :=
                     copy_to_uint64_little_endian metadata_data
                       (unat (64 + actual_offset + 32)),
                 scan_encrypted_metadata2_offset :=
                     copy_to_uint64_little_endian metadata_data
                       (unat (64 + actual_offset + 40)) \<rparr>
        else scan1
      else scan)"

fun read_metadata_copies ::
  "u8 list \<Rightarrow> dump_handle \<Rightarrow> memory \<Rightarrow> metadata_scan \<Rightarrow> nat list \<Rightarrow> error + metadata_scan" where
  "read_metadata_copies source h behind scan [] = Inr scan"
| "read_metadata_copies source h behind scan (metadata_index # rest) =
     (case file_read source (metadata_offsets h ! metadata_index) (unat (metadata_size h)) of
        Inl e \<Rightarrow> Inl e
      | Inr metadata_data \<Rightarrow>
          read_metadata_copies source h behind
            (read_metadata_copy scan metadata_index (heap_buffer metadata_data behind)) rest)"

definition dump_handle_read_metadata ::
  "u8 list \<Rightarrow> dump_handle \<Rightarrow> memory \<Rightarrow> error + dump_handle" where
  "dump_handle_read_metadata source h behind =
     (if metadata_size h = 0 then Inl RUNTIME_VALUE_MISSING
      else case read_metadata_copies source h behind metadata_scan_start [0, 1, 2, 3] of
        Inl e \<Rightarrow> Inl e
      | Inr scan \<Rightarrow>
          Inr (h\<lparr> encrypted_metadata1_offset :=
                    (scan_encrypted_metadata1_offset scan AND 0x0000ffffffffffff)
                      * ucast (dump_block_size h),
                  encrypted_metadata2_offset :=
                    (scan_encrypted_metadata2_offset scan AND 0x0000ffffffffffff)
                      * ucast (dump_block_size h),
                  encrypted_metadata_size :=
                    scan_encrypted_metadata_size scan * ucast (dump_block_size h) \<rparr>))"

text \<open>
  \<open>dump_handle_copy_region\<close>. \<open>copy_chunks\<close> is the loop over chunks of at most 64 KiB,
  at the file positions the two \<open>lseek\<close> calls set; the abort flag is polled before
  each chunk.
\<close>

function copy_chunks :: "u8 list \<Rightarrow> dump_run \<Rightarrow> nat \<Rightarrow> nat \<Rightarrow> nat \<Rightarrow> error + dump_run" where
  "copy_chunks source run source_position destination_position remaining =
     (if remaining = 0 then Inr run
      else if abort (handle run) then Inl RUNTIME_ABORT_REQUESTED
      else
        let bytes_to_copy = (if remaining > 64 * 1024 then 64 * 1024 else remaining) in
        if bytes_to_copy \<le> length source - source_position
        then copy_chunks source
               (run\<lparr> destination :=
                        file_put (destination run) destination_position
                          (take bytes_to_copy (drop source_position source)),
                     handle := (handle run)
                        \<lparr> bytes_copied := bytes_copied (handle run) + of_nat bytes_to_copy \<rparr> \<rparr>)
               (source_position + bytes_to_copy) (destination_position + bytes_to_copy)
               (remaining - bytes_to_copy)
        else Inl IO_READ_FAILED)"
  by pat_completeness auto

termination
  by (relation "measure (\<lambda>(source, run, sp, dp, remaining). remaining)") auto

declare copy_chunks.simps [simp del]

definition dump_handle_copy_region ::
  "u8 list \<Rightarrow> dump_run \<Rightarrow> u64 \<Rightarrow> u64 \<Rightarrow> u64 \<Rightarrow> error + dump_run" where
  "dump_handle_copy_region source run source_offset destination_offset size_in_bytes =
     (if size_in_bytes = 0 then Inr run
      else if 2 ^ 63 \<le> unat source_offset then Inl IO_SEEK_FAILED
      else if 2 ^ 63 \<le> unat destination_offset then Inl IO_SEEK_FAILED
      else copy_chunks source run (unat source_offset) (unat destination_offset)
             (unat size_in_bytes))"

text \<open>
  \<open>dump_handle_write_corrected_metadata\<close>. \<open>correct_metadata_block\<close> is the part
  between the read and the write: it works on the memory at \<open>metadata_data\<close>, a buffer
  of \<open>metadata_size\<close> bytes allocated by the call. The checksum is taken over 8184 bytes
  from index 8 with the initial value \<open>0xffffffff\<close>, both constants of the source,
  whatever \<open>metadata_size\<close> is. The two quotients are 64-bit divisions by the block
  size; C leaves them undefined for a block size of 0, where the division of HOL gives 0.
  The first \<open>metadata_size\<close> bytes of the memory are written to the destination.
\<close>

definition correct_metadata_block ::
  "dump_handle \<Rightarrow> crc32_statics \<Rightarrow> memory \<Rightarrow> u64 \<Rightarrow> u64 \<Rightarrow> memory \<times> crc32_statics" where
  "correct_metadata_block h st metadata_data compact_encrypted_metadata1_offset
       compact_encrypted_metadata2_offset =
     (let volume_groups_descriptor_offset =
            copy_to_uint32_little_endian metadata_data (64 + 156) in
      if volume_groups_descriptor_offset > 64 then
        let actual_offset = volume_groups_descriptor_offset - 64;
            encrypted_metadata1_block_number =
              compact_encrypted_metadata1_offset div ucast (dump_block_size h);
            encrypted_metadata2_block_number =
              compact_encrypted_metadata2_offset div ucast (dump_block_size h)
        in
        if 64 + actual_offset + 48 \<le> metadata_size h then
          let data1 = copy_from_uint64_little_endian metadata_data
                        (unat (64 + actual_offset + 32)) encrypted_metadata1_block_number;
              data2 = copy_from_uint64_little_endian data1
                        (unat (64 + actual_offset + 40)) encrypted_metadata2_block_number;
              initial_value = 0xffffffff;
              (calculated_checksum, st') =
                dump_handle_calculate_weak_crc32 st (memory_get data2 8 8184) initial_value
          in (copy_from_uint32_little_endian data2 0 calculated_checksum, st')
        else (metadata_data, st)
      else (metadata_data, st))"

definition dump_handle_write_corrected_metadata ::
  "u8 list \<Rightarrow> dump_run \<Rightarrow> memory \<Rightarrow> u64 \<Rightarrow> u64 \<Rightarrow> u64 \<Rightarrow> u64 \<Rightarrow> error + dump_run" where
  "dump_handle_write_corrected_metadata source run behind source_offset destination_offset
       compact_encrypted_metadata1_offset compact_encrypted_metadata2_offset =
     (case file_read source source_offset (unat (metadata_size (handle run))) of
        Inl e \<Rightarrow> Inl e
      | Inr metadata_data \<Rightarrow>
          let (corrected, st') =
                correct_metadata_block (handle run) (statics run)
                  (heap_buffer metadata_data behind)
                  compact_encrypted_metadata1_offset compact_encrypted_metadata2_offset
          in (case file_write (destination run) destination_offset
                     (memory_get corrected 0 (unat (metadata_size (handle run)))) of
                Inl e \<Rightarrow> Inl e
              | Inr destination' \<Rightarrow>
                  Inr (run\<lparr> destination := destination', statics := st',
                            handle := (handle run)
                              \<lparr> bytes_copied := bytes_copied (handle run)
                                   + ucast (metadata_size (handle run)) \<rparr> \<rparr>)))"

text \<open>
  \<open>dump_handle_write_corrected_volume_header\<close>. The loop writes \<open>compact_block\<close> into
  slot \<open>metadata_index\<close> and advances it by the 32-bit quotient
  \<open>(metadata_size + block_size - 1) / block_size\<close> (for a block size of 0 again the
  quotient 0 of HOL). All indices into the 512-byte header buffer are constants below
  512.
\<close>

fun correct_metadata_slots :: "u8 list \<Rightarrow> u64 \<Rightarrow> u64 \<Rightarrow> nat list \<Rightarrow> u8 list" where
  "correct_metadata_slots volume_header_data compact_block blocks_per_copy [] =
     volume_header_data"
| "correct_metadata_slots volume_header_data compact_block blocks_per_copy
       (metadata_index # rest) =
     correct_metadata_slots
       (take (104 + metadata_index * 8) volume_header_data @ le_bytes 8 compact_block
          @ drop (104 + metadata_index * 8 + 8) volume_header_data)
       (compact_block + blocks_per_copy) blocks_per_copy rest"

definition dump_handle_write_corrected_volume_header :: "u8 list \<Rightarrow> dump_run \<Rightarrow> error + dump_run" where
  "dump_handle_write_corrected_volume_header source run =
     (case file_read source 0 512 of
        Inl e \<Rightarrow> Inl e
      | Inr volume_header_data \<Rightarrow>
          let blocks_per_copy =
                (metadata_size (handle run) + dump_block_size (handle run) - 1)
                  div dump_block_size (handle run);
              data1 = correct_metadata_slots volume_header_data 1 (ucast blocks_per_copy)
                        [0, 1, 2, 3];
              initial_value = (le_word (take 4 (drop 4 data1)) :: u32);
              (calculated_checksum, st') =
                dump_handle_calculate_weak_crc32 (statics run) (take 504 (drop 8 data1))
                  initial_value;
              data2 = le_bytes 4 calculated_checksum @ drop 4 data1
          in (case file_write (destination run) 0 data2 of
                Inl e \<Rightarrow> Inl e
              | Inr destination' \<Rightarrow>
                  Inr (run\<lparr> destination := destination', statics := st',
                            handle := (handle run)
                              \<lparr> bytes_copied := bytes_copied (handle run) + 512 \<rparr> \<rparr>)))"

text \<open>
  \<open>dump_handle_dump\<close>, in its four stages: the sparse truncation and the volume
  header, the four metadata copies, and the two encrypted-metadata regions. Each stage
  hands on the run and \<open>current_offset\<close>. In compact mode each metadata copy gets a
  buffer of its own; \<open>behind metadata_index\<close> is the memory behind the buffer of copy
  \<open>metadata_index\<close>.
\<close>

definition dump_volume_header :: "u8 list \<Rightarrow> dump_run \<Rightarrow> error + (dump_run \<times> u64)" where
  "dump_volume_header source run =
     (let run0 = run\<lparr> handle := (handle run)\<lparr> bytes_copied := 0 \<rparr> \<rparr> in
      if compact (handle run0) then
        map_sum id (\<lambda>run1. (run1, ucast (dump_block_size (handle run1))))
          (dump_handle_write_corrected_volume_header source run0)
      else if 2 ^ 63 \<le> unat (physical_volume_size (handle run0)) then Inl IO_GENERIC
      else
        let n = unat (physical_volume_size (handle run0));
            run1 = run0\<lparr> destination :=
                      take n (destination run0) @ replicate (n - length (destination run0)) 0 \<rparr>
        in map_sum id (\<lambda>run2. (run2, 0)) (dump_handle_copy_region source run1 0 0 512))"

fun dump_metadata_copies ::
  "u8 list \<Rightarrow> dump_run \<Rightarrow> (nat \<Rightarrow> memory) \<Rightarrow> u64 \<Rightarrow> nat list \<Rightarrow> error + (dump_run \<times> u64)" where
  "dump_metadata_copies source run behind current_offset [] = Inr (run, current_offset)"
| "dump_metadata_copies source run behind current_offset (metadata_index # rest) =
     (if compact (handle run) then
        let compact_encrypted_metadata1_offset =
              (ucast (dump_block_size (handle run) + 4 * metadata_size (handle run)) :: u64);
            compact_encrypted_metadata2_offset =
              compact_encrypted_metadata1_offset + encrypted_metadata_size (handle run)
        in (case dump_handle_write_corrected_metadata source run (behind metadata_index)
                   (metadata_offsets (handle run) ! metadata_index) current_offset
                   compact_encrypted_metadata1_offset compact_encrypted_metadata2_offset of
              Inl e \<Rightarrow> Inl e
            | Inr run' \<Rightarrow>
                dump_metadata_copies source run' behind
                  (current_offset + ucast (metadata_size (handle run'))) rest)
      else
        (case dump_handle_copy_region source run
                (metadata_offsets (handle run) ! metadata_index)
                (metadata_offsets (handle run) ! metadata_index)
                (ucast (metadata_size (handle run))) of
           Inl e \<Rightarrow> Inl e
         | Inr run' \<Rightarrow> dump_metadata_copies source run' behind current_offset rest))"

definition dump_encrypted_metadata ::
  "u8 list \<Rightarrow> dump_run \<Rightarrow> u64 \<Rightarrow> u64 \<Rightarrow> error + (dump_run \<times> u64)" where
  "dump_encrypted_metadata source run current_offset encrypted_metadata_offset =
     (if encrypted_metadata_offset \<noteq> 0 then
        if compact (handle run) then
          map_sum id (\<lambda>run'. (run', current_offset + encrypted_metadata_size (handle run')))
            (dump_handle_copy_region source run encrypted_metadata_offset current_offset
               (encrypted_metadata_size (handle run)))
        else
          map_sum id (\<lambda>run'. (run', current_offset))
            (dump_handle_copy_region source run encrypted_metadata_offset
               encrypted_metadata_offset (encrypted_metadata_size (handle run)))
      else Inr (run, current_offset))"

definition dump_handle_dump ::
  "u8 list \<Rightarrow> (nat \<Rightarrow> memory) \<Rightarrow> dump_run \<Rightarrow> error + dump_run" where
  "dump_handle_dump source behind run =
     (case dump_volume_header source run of
        Inl e \<Rightarrow> Inl e
      | Inr (run1, offset1) \<Rightarrow>
     (case dump_metadata_copies source run1 behind offset1 [0, 1, 2, 3] of
        Inl e \<Rightarrow> Inl e
      | Inr (run2, offset2) \<Rightarrow>
     (case dump_encrypted_metadata source run2 offset2
             (encrypted_metadata1_offset (handle run2)) of
        Inl e \<Rightarrow> Inl e
      | Inr (run3, offset3) \<Rightarrow>
          map_sum id fst
            (dump_encrypted_metadata source run3 offset3
               (encrypted_metadata2_offset (handle run3))))))"


text \<open>
  How \<open>dump_handle_read_metadata\<close> sees metadata copy \<open>i\<close> of a source: the memory at
  its buffer once the copy is read, the transaction identifier at index 16, the
  volume-groups descriptor offset at index 220, and the descriptor field at a distance
  \<open>k\<close> from the descriptor (the 32-bit sum \<open>64 + (offset - 64) + k\<close> of the source is
  \<open>offset + k\<close>).
\<close>

definition metadata_copy :: "u8 list \<Rightarrow> dump_handle \<Rightarrow> memory \<Rightarrow> nat \<Rightarrow> memory" where
  "metadata_copy source h behind i =
     heap_buffer (take (unat (metadata_size h)) (drop (unat (metadata_offsets h ! i)) source))
       behind"

definition block_transaction_identifier :: "memory \<Rightarrow> u64" where
  "block_transaction_identifier block = le_word (memory_get block 16 8)"

definition block_descriptor_offset :: "memory \<Rightarrow> u32" where
  "block_descriptor_offset block = le_word (memory_get block 220 4)"

definition block_descriptor_field :: "memory \<Rightarrow> u32 \<Rightarrow> u64" where
  "block_descriptor_field block k =
     le_word (memory_get block (unat (block_descriptor_offset block + k)) 8)"

definition scan_fields :: "metadata_scan \<Rightarrow> u64 \<times> u64 \<times> u64" where
  "scan_fields scan = (scan_encrypted_metadata_size scan,
     scan_encrypted_metadata1_offset scan, scan_encrypted_metadata2_offset scan)"

definition block_fields :: "memory \<Rightarrow> u64 \<times> u64 \<times> u64" where
  "block_fields block = (block_descriptor_field block 8,
     block_descriptor_field block 32, block_descriptor_field block 40)"

text \<open>
  What \<open>dump_handle_read_metadata\<close> stores in the handle for the descriptor fields
  \<open>(size, block number 1, block number 2)\<close> it has adopted, and what the handle holds.
\<close>

definition stored_descriptor :: "dump_handle \<Rightarrow> u64 \<times> u64 \<times> u64 \<Rightarrow> u64 \<times> u64 \<times> u64" where
  "stored_descriptor h f =
     (case f of (size_in_blocks, block1, block2) \<Rightarrow>
        (size_in_blocks * ucast (dump_block_size h),
         (block1 AND 0x0000ffffffffffff) * ucast (dump_block_size h),
         (block2 AND 0x0000ffffffffffff) * ucast (dump_block_size h)))"

definition handle_descriptor :: "dump_handle \<Rightarrow> u64 \<times> u64 \<times> u64" where
  "handle_descriptor h =
     (encrypted_metadata_size h, encrypted_metadata1_offset h, encrypted_metadata2_offset h)"

text \<open>The fields of a handle that a dump does not write: all but \<open>bytes_copied\<close>.\<close>

definition settings :: "dump_handle \<Rightarrow> dump_handle" where
  "settings h = h\<lparr> bytes_copied := 0 \<rparr>"

text \<open>The dump without the two encrypted-metadata stages.\<close>

definition dump_header_and_metadata ::
  "u8 list \<Rightarrow> (nat \<Rightarrow> memory) \<Rightarrow> dump_run \<Rightarrow> error + dump_run" where
  "dump_header_and_metadata source behind run =
     (case dump_volume_header source run of
        Inl e \<Rightarrow> Inl e
      | Inr (run1, offset1) \<Rightarrow>
          map_sum id fst (dump_metadata_copies source run1 behind offset1 [0, 1, 2, 3]))"

text \<open>
  A small source for the selection: four metadata copies of 256 bytes, each with its
  descriptor at offset 100, with the transaction identifiers 5, 7, 7 and 3; and a heap
  that holds zeros behind the buffer.
\<close>

definition zero_memory :: memory where
  "zero_memory = (\<lambda>index. 0)"

definition small_copy :: "u64 \<Rightarrow> u64 \<Rightarrow> u64 \<Rightarrow> u64 \<Rightarrow> u8 list" where
  "small_copy txid size_in_blocks block1 block2 =
     replicate 16 0 @ le_bytes 8 txid @ replicate 84 0 @ le_bytes 8 size_in_blocks
       @ replicate 16 0 @ le_bytes 8 block1 @ le_bytes 8 block2 @ replicate 72 0
       @ le_bytes 4 (100 :: u32) @ replicate 32 0"

definition small_source :: "u8 list" where
  "small_source = small_copy 5 1 9 19 @ small_copy 7 2 10 20 @ small_copy 7 3 11 21
                    @ small_copy 3 4 12 22"

definition small_handle :: dump_handle where
  "small_handle = dump_handle_initialize
     \<lparr> dump_block_size := 512, metadata_size := 256, metadata_offsets := [0, 256, 512, 768] \<rparr>"

definition small_result :: dump_handle where
  "small_result = small_handle
     \<lparr> encrypted_metadata1_offset := 5120, encrypted_metadata2_offset := 10240,
       encrypted_metadata_size := 1024 \<rparr>"

text \<open>
  A source whose first metadata copy points past its own end: 256-byte copies, the
  first with transaction identifier 1 and descriptor offset 250, the others zero.
\<close>

definition overrun_copy :: "u8 list" where
  "overrun_copy = replicate 16 0 @ le_bytes 8 (1 :: u64) @ replicate 196 0
                    @ le_bytes 4 (250 :: u32) @ replicate 32 0"

definition overrun_source :: "u8 list" where
  "overrun_source = overrun_copy @ replicate 768 0"

section \<open>Checksums of rewritten blocks\<close>


definition metadata_block_checksum_valid :: "u8 list \<Rightarrow> bool" where
  "metadata_block_checksum_valid block \<longleftrightarrow>
     (le_word (take 4 block) :: u32) =
       reference_crc (reference_table 0x82F63B78) (le_word (take 4 (drop 4 block)))
         (drop 8 block)"

text \<open>
  The statics once the table is built; \<open>crc32_statics_sound\<close> holds of the two values
  the statics take in a run of the program.
\<close>

definition crc32_statics_built :: crc32_statics where
  "crc32_statics_built =
     \<lparr> crc32_table = reference_table 0x82F63B78, crc32_table_initialized = True \<rparr>"

definition crc32_statics_sound :: "crc32_statics \<Rightarrow> bool" where
  "crc32_statics_sound st \<longleftrightarrow> st = crc32_statics_at_start \<or> st = crc32_statics_built"



text \<open>
  A metadata block whose initial-value field \<open>[4..8)\<close> is 0, with its descriptor at
  offset 100, in a volume with 4096-byte blocks and 8192-byte metadata copies.
\<close>

definition plain_block :: "u8 list" where
  "plain_block = replicate 220 0 @ le_bytes 4 (100 :: u32) @ replicate 7968 0"

definition plain_handle :: dump_handle where
  "plain_handle = dump_handle_initialize \<lparr> dump_block_size := 4096, metadata_size := 8192 \<rparr>"

definition plain_corrected :: memory where
  "plain_corrected =
     fst (correct_metadata_block plain_handle crc32_statics_at_start
            (heap_buffer plain_block zero_memory) 36864 53248)"












text \<open>
  A source for scenario S4, built around an initial value \<open>initial_value\<close> for the
  checksums of its metadata blocks. The volume header carries the signature, block size
  4096, metadata size 8192 and the metadata block numbers 2, 4, 6 and 8. Each of the four
  metadata copies carries the transaction identifier 1, its descriptor at offset 100 with
  the size 4 (in blocks) and the block numbers 100 and 200, the initial value at
  \<open>[4..8)\<close> and, at \<open>[0..4)\<close>, the checksum of its bytes from 8 on under that initial
  value. The source ends with the second encrypted-metadata region.
\<close>

definition s4_header :: "u8 list" where
  "s4_header = replicate 88 0 @ [0x43, 0x53] @ replicate 6 0 @ le_bytes 4 (4096 :: u32)
                 @ le_bytes 4 (8192 :: u32) @ le_bytes 8 (2 :: u64) @ le_bytes 8 (4 :: u64)
                 @ le_bytes 8 (6 :: u64) @ le_bytes 8 (8 :: u64) @ replicate 376 0"

definition s4_block_data :: "u8 list" where
  "s4_block_data = replicate 8 0 @ le_bytes 8 (1 :: u64) @ replicate 84 0
                     @ le_bytes 8 (4 :: u64) @ replicate 16 0 @ le_bytes 8 (100 :: u64)
                     @ le_bytes 8 (200 :: u64) @ replicate 72 0 @ le_bytes 4 (100 :: u32)
                     @ replicate 7968 0"

definition s4_block :: "u32 \<Rightarrow> u8 list" where
  "s4_block initial_value =
     le_bytes 4 (reference_crc (reference_table 0x82F63B78) initial_value s4_block_data)
       @ le_bytes 4 initial_value @ s4_block_data"

definition s4_source :: "u32 \<Rightarrow> u8 list" where
  "s4_source initial_value =
     s4_header @ replicate 7680 0 @ s4_block initial_value @ s4_block initial_value
       @ s4_block initial_value @ s4_block initial_value @ replicate 794624 0"


text \<open>
  A source with the same parameters whose metadata copies 2 to 4 are blank: only the
  first copy carries a transaction identifier and a descriptor. \<open>s4_blank_dump\<close> is the
  destination of its compact dump.
\<close>

definition s4_blank_source :: "u8 list" where
  "s4_blank_source =
     s4_header @ replicate 7680 0 @ s4_block 0xffffffff @ replicate 8192 0
       @ replicate 8192 0 @ replicate 8192 0 @ replicate 794624 0"


section \<open>Capacity of the volume tables\<close>

lemma add_each_physical_volume_general:
  "add_each_physical_volume vs calls =
     (vs\<lparr> physical_volumes := physical_volumes vs @
            map new_physical_volume (take (16 - length (physical_volumes vs)) calls) \<rparr>,
      map call_result [length (physical_volumes vs) ..< length (physical_volumes vs) + length calls])"
proof (induction calls arbitrary: vs)
  case Nil
  then show ?case by simp
next
  case (Cons c calls)
  obtain uuid sz where c: "c = (uuid, sz)" by (cases c)
  let ?n = "length (physical_volumes vs)"
  have "[?n ..< ?n + length (c # calls)] = ?n # [Suc ?n ..< ?n + length (c # calls)]"
    by (rule upt_conv_Cons) simp
  moreover have "?n + length (c # calls) = Suc ?n + length calls"
    by simp
  ultimately have upt: "[?n ..< ?n + length (c # calls)] = ?n # [Suc ?n ..< Suc ?n + length calls]"
    by (simp only:)
  show ?case
  proof (cases "?n < 16")
    case True
    then have tk: "take (16 - ?n) (c # calls) = c # take (16 - Suc ?n) calls"
    proof -
      from True have "16 - ?n = Suc (16 - Suc ?n)" by arith
      then show ?thesis by (simp only: take_Suc_Cons)
    qed
    from True show ?thesis
      unfolding upt tk
      by (simp add: c Cons.IH volume_state_add_physical_volume_def num_physical_volumes_def
          FVDECHECK_MAX_PHYSICAL_VOLUMES_def new_physical_volume_def call_result_def
          del: upt_Suc)
  next
    case False
    then have tk: "16 - ?n = 0" "16 - Suc ?n = 0" by simp_all
    have cr: "map call_result [Suc ?n ..< Suc (?n + length calls)] =
              map call_result [?n ..< ?n + length calls]"
      using False by (intro nth_equalityI) (simp_all add: call_result_def del: upt_Suc)
    from False show ?thesis
      unfolding upt
      by (simp add: c Cons.IH tk cr volume_state_add_physical_volume_def
          num_physical_volumes_def FVDECHECK_MAX_PHYSICAL_VOLUMES_def del: upt_Suc)
        (simp add: call_result_def)
  qed
qed

lemma add_each_logical_volume_general:
  "add_each_logical_volume vs calls =
     (vs\<lparr> logical_volumes := logical_volumes vs @
            map new_logical_volume (take (16 - length (logical_volumes vs)) calls) \<rparr>,
      map call_result [length (logical_volumes vs) ..< length (logical_volumes vs) + length calls])"
proof (induction calls arbitrary: vs)
  case Nil
  then show ?case by simp
next
  case (Cons c calls)
  obtain uuid sz where c: "c = (uuid, sz)" by (cases c)
  let ?n = "length (logical_volumes vs)"
  have "[?n ..< ?n + length (c # calls)] = ?n # [Suc ?n ..< ?n + length (c # calls)]"
    by (rule upt_conv_Cons) simp
  moreover have "?n + length (c # calls) = Suc ?n + length calls"
    by simp
  ultimately have upt: "[?n ..< ?n + length (c # calls)] = ?n # [Suc ?n ..< Suc ?n + length calls]"
    by (simp only:)
  show ?case
  proof (cases "?n < 16")
    case True
    then have tk: "take (16 - ?n) (c # calls) = c # take (16 - Suc ?n) calls"
    proof -
      from True have "16 - ?n = Suc (16 - Suc ?n)" by arith
      then show ?thesis by (simp only: take_Suc_Cons)
    qed
    from True show ?thesis
      unfolding upt tk
      by (simp add: c Cons.IH volume_state_add_logical_volume_def num_logical_volumes_def
          FVDECHECK_MAX_LOGICAL_VOLUMES_def new_logical_volume_def call_result_def
          del: upt_Suc)
  next
    case False
    then have tk: "16 - ?n = 0" "16 - Suc ?n = 0" by simp_all
    have cr: "map call_result [Suc ?n ..< Suc (?n + length calls)] =
              map call_result [?n ..< ?n + length calls]"
      using False by (intro nth_equalityI) (simp_all add: call_result_def del: upt_Suc)
    from False show ?thesis
      unfolding upt
      by (simp add: c Cons.IH tk cr volume_state_add_logical_volume_def
          num_logical_volumes_def FVDECHECK_MAX_LOGICAL_VOLUMES_def del: upt_Suc)
        (simp add: call_result_def)
  qed
qed

lemma call_results_17:
  "map call_result [0..<17] = map (\<lambda>i. Inr (of_nat i)) [0..<16] @ [Inl RUNTIME_VALUE_OUT_OF_BOUNDS]"
  by (simp add: call_result_def upt_rec numeral_nat)

text \<open>
  Claim C7. Seventeen \<open>add_physical_volume\<close> calls on a freshly initialised volume
  state: the first sixteen return the indices 0 to 15, the seventeenth fails with the
  value-out-of-bounds runtime error ("maximum number of physical volumes reached", the
  specification's CapacityExceeded), and the state after the seventeenth call is the
  state after the sixteenth, holding exactly the sixteen volumes added before. The
  same holds for \<open>add_logical_volume\<close>. The uuids need not even be distinct.
\<close>

theorem add_volume_capacity:
  assumes "length calls = 17"
  shows "snd (add_each_physical_volume volume_state_initialize calls) =
           map (\<lambda>i. Inr (of_nat i)) [0..<16] @ [Inl RUNTIME_VALUE_OUT_OF_BOUNDS]
       \<and> fst (add_each_physical_volume volume_state_initialize calls) =
           fst (add_each_physical_volume volume_state_initialize (take 16 calls))
       \<and> physical_volumes (fst (add_each_physical_volume volume_state_initialize calls)) =
           map new_physical_volume (take 16 calls)
       \<and> volume_state_add_physical_volume
           (fst (add_each_physical_volume volume_state_initialize (take 16 calls)))
           (fst (calls ! 16)) (snd (calls ! 16)) = Inl RUNTIME_VALUE_OUT_OF_BOUNDS
       \<and> snd (add_each_logical_volume volume_state_initialize calls) =
           map (\<lambda>i. Inr (of_nat i)) [0..<16] @ [Inl RUNTIME_VALUE_OUT_OF_BOUNDS]
       \<and> fst (add_each_logical_volume volume_state_initialize calls) =
           fst (add_each_logical_volume volume_state_initialize (take 16 calls))
       \<and> logical_volumes (fst (add_each_logical_volume volume_state_initialize calls)) =
           map new_logical_volume (take 16 calls)
       \<and> volume_state_add_logical_volume
           (fst (add_each_logical_volume volume_state_initialize (take 16 calls)))
           (fst (calls ! 16)) (snd (calls ! 16)) = Inl RUNTIME_VALUE_OUT_OF_BOUNDS"
proof -
  have init: "physical_volumes volume_state_initialize = []"
             "logical_volumes volume_state_initialize = []"
    by (simp_all add: volume_state_initialize_def)
  have len: "length (take 16 calls) = 16" using assms by simp
  have r: "[0..<length calls] = [0..<17]" using assms by simp
  show ?thesis
    unfolding add_each_physical_volume_general add_each_logical_volume_general
    by (simp add: init r call_results_17 volume_state_add_physical_volume_def
        volume_state_add_logical_volume_def num_physical_volumes_def num_logical_volumes_def
        FVDECHECK_MAX_PHYSICAL_VOLUMES_def FVDECHECK_MAX_LOGICAL_VOLUMES_def assms
        del: upt_Suc)
qed

theorem add_volume_capacity_witness:
  "length seventeen_calls = 17
   \<and> distinct (map fst seventeen_calls)
   \<and> snd (add_each_physical_volume volume_state_initialize seventeen_calls) =
       map (\<lambda>i. Inr (of_nat i)) [0..<16] @ [Inl RUNTIME_VALUE_OUT_OF_BOUNDS]
   \<and> length (physical_volumes
        (fst (add_each_physical_volume volume_state_initialize seventeen_calls))) = 16
   \<and> snd (add_each_logical_volume volume_state_initialize seventeen_calls) =
       map (\<lambda>i. Inr (of_nat i)) [0..<16] @ [Inl RUNTIME_VALUE_OUT_OF_BOUNDS]
   \<and> length (logical_volumes
        (fst (add_each_logical_volume volume_state_initialize seventeen_calls))) = 16"
proof -
  have len: "length seventeen_calls = 17"
    by (simp add: seventeen_calls_def)
  have d: "distinct (map fst seventeen_calls)"
    by code_simp
  note t = add_volume_capacity [OF len]
  from t have "physical_volumes
        (fst (add_each_physical_volume volume_state_initialize seventeen_calls)) =
      map new_physical_volume (take 16 seventeen_calls)"
    by blast
  then have p: "length (physical_volumes
        (fst (add_each_physical_volume volume_state_initialize seventeen_calls))) = 16"
    using len by simp
  from t have "logical_volumes
        (fst (add_each_logical_volume volume_state_initialize seventeen_calls)) =
      map new_logical_volume (take 16 seventeen_calls)"
    by blast
  then have l: "length (logical_volumes
        (fst (add_each_logical_volume volume_state_initialize seventeen_calls))) = 16"
    using len by simp
  from t len d p l show ?thesis
    by blast
qed

section \<open>Ordering of the extent lists\<close>

lemma insort_insert_by_physical_start:
  "insort_key physical_block_start x (insert_by_physical_start e ys) =
   insert_by_physical_start e (insort_key physical_block_start x ys)"
  by (induction ys) auto

lemma sort_key_snoc_physical:
  "sort_key physical_block_start (xs @ [e]) =
   insert_by_physical_start e (sort_key physical_block_start xs)"
  by (induction xs) (simp_all add: insort_insert_by_physical_start)

lemma foldl_insert_physical:
  "foldl (\<lambda>l e. insert_by_physical_start e l) [] es = sort_key physical_block_start es"
  by (induction es rule: rev_induct) (simp_all add: sort_key_snoc_physical)

lemma insort_insert_by_logical_start:
  "insort_key logical_block_start x (insert_by_logical_start e ys) =
   insert_by_logical_start e (insort_key logical_block_start x ys)"
  by (induction ys) auto

lemma sort_key_snoc_logical:
  "sort_key logical_block_start (xs @ [e]) =
   insert_by_logical_start e (sort_key logical_block_start xs)"
  by (induction xs) (simp_all add: insort_insert_by_logical_start)

lemma foldl_insert_logical:
  "foldl (\<lambda>l e. insert_by_logical_start e l) [] es = sort_key logical_block_start es"
  by (induction es rule: rev_induct) (simp_all add: sort_key_snoc_logical)

lemma pv_list_of_insert_physical:
  "unat pv < num_physical_volumes vs \<Longrightarrow>
   pv_list_of (insert_extent_physical vs pv e) i =
     (if i = unat pv then insert_by_physical_start e (pv_list_of vs i) else pv_list_of vs i)"
  by (simp add: pv_list_of_def insert_extent_physical_def num_physical_volumes_def Let_def)

lemma lv_list_of_insert_physical:
  "lv_list_of (insert_extent_physical vs pv e) j = lv_list_of vs j"
  by (simp add: lv_list_of_def insert_extent_physical_def num_logical_volumes_def Let_def)

lemma lv_list_of_insert_logical:
  "unat lv < num_logical_volumes vs \<Longrightarrow>
   lv_list_of (insert_extent_logical vs lv e) j =
     (if j = unat lv then insert_by_logical_start e (lv_list_of vs j) else lv_list_of vs j)"
  by (simp add: lv_list_of_def insert_extent_logical_def num_logical_volumes_def Let_def)

lemma pv_list_of_insert_logical:
  "pv_list_of (insert_extent_logical vs lv e) i = pv_list_of vs i"
  by (simp add: pv_list_of_def insert_extent_logical_def num_physical_volumes_def Let_def)

lemma num_lv_insert_physical [simp]:
  "num_logical_volumes (insert_extent_physical vs pv e) = num_logical_volumes vs"
  by (simp add: insert_extent_physical_def num_logical_volumes_def Let_def)

lemma pv_list_of_total [simp]: "pv_list_of (vs\<lparr>total_extents := t\<rparr>) i = pv_list_of vs i"
  by (simp add: pv_list_of_def num_physical_volumes_def)

lemma lv_list_of_total [simp]: "lv_list_of (vs\<lparr>total_extents := t\<rparr>) j = lv_list_of vs j"
  by (simp add: lv_list_of_def num_logical_volumes_def)

lemma pv_list_of_call:
  assumes "store_call_apply vs c = Inr vs'"
  shows "pv_list_of vs' i =
         foldl (\<lambda>l e. insert_by_physical_start e l) (pv_list_of vs i) (physical_history [c] i)"
proof (cases c)
  case (AddPhysicalVolume uuid n)
  with assms show ?thesis
    by (auto simp: volume_state_add_physical_volume_def physical_history_def pv_list_of_def
        num_physical_volumes_def nth_append split: if_splits)
next
  case (AddLogicalVolume uuid n)
  with assms show ?thesis
    by (auto simp: volume_state_add_logical_volume_def physical_history_def pv_list_of_def
        num_physical_volumes_def split: if_splits)
next
  case (MarkReserved pv s k d)
  with assms show ?thesis
    by (auto simp: volume_state_mark_reserved_def physical_history_def Let_def
        pv_list_of_insert_physical reserved_extent_def extent_initialize_def split: if_splits)
next
  case (MarkFree pv s k tid mbi bt)
  with assms show ?thesis
    by (auto simp: volume_state_mark_free_def physical_history_def Let_def
        pv_list_of_insert_physical free_extent_def extent_initialize_def split: if_splits)
next
  case (MarkAllocated pv s k lv ls tid mbi bt)
  with assms show ?thesis
    by (auto simp: volume_state_mark_allocated_def physical_history_def Let_def
        pv_list_of_insert_physical pv_list_of_insert_logical
        allocated_extent_def extent_initialize_def split: if_splits)
qed

lemma lv_list_of_call:
  assumes "store_call_apply vs c = Inr vs'"
  shows "lv_list_of vs' j =
         foldl (\<lambda>l e. insert_by_logical_start e l) (lv_list_of vs j) (logical_history [c] j)"
proof (cases c)
  case (AddPhysicalVolume uuid n)
  with assms show ?thesis
    by (auto simp: volume_state_add_physical_volume_def logical_history_def lv_list_of_def
        num_logical_volumes_def split: if_splits)
next
  case (AddLogicalVolume uuid n)
  with assms show ?thesis
    by (auto simp: volume_state_add_logical_volume_def logical_history_def lv_list_of_def
        num_logical_volumes_def nth_append split: if_splits)
next
  case (MarkReserved pv s k d)
  with assms show ?thesis
    by (auto simp: volume_state_mark_reserved_def logical_history_def Let_def
        lv_list_of_insert_physical reserved_extent_def extent_initialize_def split: if_splits)
next
  case (MarkFree pv s k tid mbi bt)
  with assms show ?thesis
    by (auto simp: volume_state_mark_free_def logical_history_def Let_def
        lv_list_of_insert_physical free_extent_def extent_initialize_def split: if_splits)
next
  case (MarkAllocated pv s k lv ls tid mbi bt)
  with assms show ?thesis
    by (auto simp: volume_state_mark_allocated_def logical_history_def Let_def
        lv_list_of_insert_physical lv_list_of_insert_logical
        allocated_extent_def extent_initialize_def split: if_splits)
qed

lemma physical_history_Cons:
  "physical_history (c # cs) i = physical_history [c] i @ physical_history cs i"
  by (simp add: physical_history_def)

lemma logical_history_Cons:
  "logical_history (c # cs) j = logical_history [c] j @ logical_history cs j"
  by (simp add: logical_history_def)

lemma pv_list_of_calls:
  "store_calls_apply vs cs = Inr vs' \<Longrightarrow>
   pv_list_of vs' i =
     foldl (\<lambda>l e. insert_by_physical_start e l) (pv_list_of vs i) (physical_history cs i)"
proof (induction cs arbitrary: vs)
  case Nil
  then show ?case by (simp add: physical_history_def)
next
  case (Cons c cs)
  then obtain vs1 where 1: "store_call_apply vs c = Inr vs1"
    and 2: "store_calls_apply vs1 cs = Inr vs'"
    by (auto split: sum.splits)
  show ?case
    unfolding physical_history_Cons [of c cs] foldl_append
    using Cons.IH [OF 2] pv_list_of_call [OF 1] by simp
qed

lemma lv_list_of_calls:
  "store_calls_apply vs cs = Inr vs' \<Longrightarrow>
   lv_list_of vs' j =
     foldl (\<lambda>l e. insert_by_logical_start e l) (lv_list_of vs j) (logical_history cs j)"
proof (induction cs arbitrary: vs)
  case Nil
  then show ?case by (simp add: logical_history_def)
next
  case (Cons c cs)
  then obtain vs1 where 1: "store_call_apply vs c = Inr vs1"
    and 2: "store_calls_apply vs1 cs = Inr vs'"
    by (auto split: sum.splits)
  show ?case
    unfolding logical_history_Cons [of c cs] foldl_append
    using Cons.IH [OF 2] lv_list_of_call [OF 1] by simp
qed

lemma pv_list_of_initialize [simp]: "pv_list_of volume_state_initialize i = []"
  by (simp add: pv_list_of_def volume_state_initialize_def num_physical_volumes_def)

lemma lv_list_of_initialize [simp]: "lv_list_of volume_state_initialize j = []"
  by (simp add: lv_list_of_def volume_state_initialize_def num_logical_volumes_def)

lemma pv_list_sorted_history:
  "store_calls_apply volume_state_initialize cs = Inr vs \<Longrightarrow>
   pv_list_of vs i = sort_key physical_block_start (physical_history cs i)"
  by (simp add: pv_list_of_calls foldl_insert_physical)

lemma lv_list_sorted_history:
  "store_calls_apply volume_state_initialize cs = Inr vs \<Longrightarrow>
   lv_list_of vs j = sort_key logical_block_start (logical_history cs j)"
  by (simp add: lv_list_of_calls foldl_insert_logical)

lemma s2_run:
  "store_calls_apply volume_state_initialize (s2_calls ta ma ba tb mb bb) =
     Inr (s2_state ta ma ba tb mb bb)"
  by (simp add: s2_calls_def s2_state_def volume_state_initialize_def
      volume_state_add_physical_volume_def volume_state_add_logical_volume_def
      volume_state_mark_reserved_def volume_state_mark_allocated_def
      insert_extent_physical_def insert_extent_logical_def
      num_physical_volumes_def num_logical_volumes_def
      FVDECHECK_MAX_PHYSICAL_VOLUMES_def FVDECHECK_MAX_LOGICAL_VOLUMES_def Let_def
      reserved_extent_def allocated_extent_def extent_initialize_def)

lemma s2_queries:
  "map physical_block_start (pv_list_of (s2_state ta ma ba tb mb bb) 0) = [0, 4, 10]"
  "volume_state_check_overlap (s2_state ta ma ba tb mb bb) 0 6 3 =
     Some (allocated_extent 0 4 3 0 5 tb mb bb)"
  "volume_state_find_physical_extent (s2_state ta ma ba tb mb bb) 0 12 =
     Some (allocated_extent 0 10 5 0 0 ta ma ba)"
  by (simp_all add: s2_state_def pv_list_of_def num_physical_volumes_def
      volume_state_check_overlap_def volume_state_find_physical_extent_def Let_def
      reserved_extent_def allocated_extent_def extent_initialize_def)

text \<open>
  Claim C6. After any sequence of successful store calls on a fresh state, the list of
  every physical volume is ascending in \<open>physical_block_start\<close> and the extents of
  equal start stand in the order of their insertion (the list filtered at any start
  \<open>k\<close> is the call history filtered at \<open>k\<close>); no extent is lost or added. The
  list of every logical volume is ordered the same way by \<open>logical_block_start\<close>.
  Scenario S2 yields the starts 0, 4, 10 on volume 0, \<open>check_overlap(0, 6, 3)\<close>
  returns the extent at start 4 and \<open>find_physical_extent(0, 12)\<close> the one at 10.
\<close>

theorem extent_lists_ordered:
  "(store_calls_apply volume_state_initialize cs = Inr vs \<longrightarrow>
      sorted (map physical_block_start (pv_list_of vs i))
    \<and> (\<forall>k. filter (\<lambda>e. physical_block_start e = k) (pv_list_of vs i) =
            filter (\<lambda>e. physical_block_start e = k) (physical_history cs i))
    \<and> mset (pv_list_of vs i) = mset (physical_history cs i)
    \<and> sorted (map logical_block_start (lv_list_of vs j))
    \<and> (\<forall>k. filter (\<lambda>e. logical_block_start e = k) (lv_list_of vs j) =
            filter (\<lambda>e. logical_block_start e = k) (logical_history cs j))
    \<and> mset (lv_list_of vs j) = mset (logical_history cs j))
   \<and> store_calls_apply volume_state_initialize (s2_calls ta ma ba tb mb bb) =
       Inr (s2_state ta ma ba tb mb bb)
   \<and> map physical_block_start (pv_list_of (s2_state ta ma ba tb mb bb) 0) = [0, 4, 10]
   \<and> volume_state_check_overlap (s2_state ta ma ba tb mb bb) 0 6 3 =
       Some (allocated_extent 0 4 3 0 5 tb mb bb)
   \<and> volume_state_find_physical_extent (s2_state ta ma ba tb mb bb) 0 12 =
       Some (allocated_extent 0 10 5 0 0 ta ma ba)"
  by (simp add: pv_list_sorted_history lv_list_sorted_history sort_key_stable s2_run s2_queries)

theorem extent_lists_ordered_witness:
  "store_calls_apply volume_state_initialize (s2_calls 0 0 0x305 0 0 0x305) =
     Inr (s2_state 0 0 0x305 0 0 0x305)
   \<and> sorted (map physical_block_start (pv_list_of (s2_state 0 0 0x305 0 0 0x305) 0))
   \<and> mset (pv_list_of (s2_state 0 0 0x305 0 0 0x305) 0) =
       mset (physical_history (s2_calls 0 0 0x305 0 0 0x305) 0)
   \<and> sorted (map logical_block_start (lv_list_of (s2_state 0 0 0x305 0 0 0x305) 0))"
  using extent_lists_ordered [where cs = "s2_calls 0 0 0x305 0 0 0x305"
      and vs = "s2_state 0 0 0x305 0 0 0x305" and i = 0 and j = 0
      and ta = 0 and ma = 0 and ba = "0x305" and tb = 0 and mb = 0 and bb = "0x305"]
  by blast

lemma ranges_intersect_iff:
  "ranges_intersect s c s' c' \<longleftrightarrow> max s s' < min (s + c) (s' + c')"
proof
  assume "ranges_intersect s c s' c'"
  then obtain x where "x \<in> {s ..< s + c} \<inter> {s' ..< s' + c'}"
    unfolding ranges_intersect_def by blast
  then show "max s s' < min (s + c) (s' + c')" by simp
next
  assume "max s s' < min (s + c) (s' + c')"
  then have "max s s' \<in> {s ..< s + c} \<inter> {s' ..< s' + c'}" by simp
  then show "ranges_intersect s c s' c'" unfolding ranges_intersect_def by blast
qed

lemma overlap_test_exact:
  assumes "extent_in_range e" "0 < c" "unat s + unat c < 2 ^ 64"
  shows "(s < physical_block_start e + physical_block_count e
            \<and> physical_block_start e < s + c) \<longleftrightarrow> overlaps_query s c e"
proof -
  have e: "unat (physical_block_start e + physical_block_count e) =
           unat (physical_block_start e) + unat (physical_block_count e)"
    using assms(1) by (simp add: extent_in_range_def unat_add_lem [THEN iffD1])
  have q: "unat (s + c) = unat s + unat c"
    using assms(3) by (simp add: unat_add_lem [THEN iffD1])
  have "0 < unat c" "0 < unat (physical_block_count e)"
    using assms(1,2) by (simp_all add: extent_in_range_def unat_gt_0 word_neq_0_conv)
  then show ?thesis
    by (auto simp: overlaps_query_def ranges_intersect_iff word_less_nat_alt e q)
qed

lemma check_overlap_walk_find:
  assumes "sorted (map physical_block_start l)" "\<forall>e \<in> set l. extent_in_range e"
    "0 < c" "unat s + unat c < 2 ^ 64"
  shows "check_overlap_walk s (s + c) l = find (overlaps_query s c) l"
  using assms(1,2)
proof (induction l)
  case Nil
  then show ?case by simp
next
  case (Cons cur rest)
  have t: "(s < physical_block_start cur + physical_block_count cur
            \<and> physical_block_start cur < s + c) \<longleftrightarrow> overlaps_query s c cur"
    using Cons.prems assms(3,4) by (simp add: overlap_test_exact)
  show ?case
  proof (cases "overlaps_query s c cur")
    case True
    with t show ?thesis by (simp add: Let_def)
  next
    case False
    show ?thesis
    proof (cases "physical_block_start cur \<ge> s + c")
      case True
      have "\<not> overlaps_query s c e" if "e \<in> set rest" for e
      proof -
        from that Cons.prems have "physical_block_start cur \<le> physical_block_start e"
          and "extent_in_range e" by auto
        with True have "\<not> physical_block_start e < s + c" by simp
        with \<open>extent_in_range e\<close> assms(3,4) show ?thesis
          using overlap_test_exact [of e c s] by blast
      qed
      then have "find (overlaps_query s c) rest = None"
        by (simp add: find_None_iff)
      with False True t show ?thesis by (auto simp add: Let_def)
    next
      case F2: False
      with False t Cons show ?thesis by (auto simp add: Let_def)
    qed
  qed
qed

lemma stored_extents_pv:
  assumes "store_calls_apply volume_state_initialize cs = Inr vs"
  shows "(\<exists>e \<in> set (stored_extents vs). physical_volume_index e = pv \<and> P e)
         \<longleftrightarrow> (\<exists>e \<in> set (pv_list_of vs (unat pv)). P e)"
proof -
  have own: "unat (physical_volume_index e) = i" if "e \<in> set (pv_list_of vs i)" for e i
    using that pv_list_sorted_history [OF assms, of i] by (simp add: physical_history_def)
  have mem: "e \<in> set (stored_extents vs) \<longleftrightarrow>
        (\<exists>i < num_physical_volumes vs. e \<in> set (pv_list_of vs i))" for e
  proof -
    have "e \<in> set (stored_extents vs) \<longleftrightarrow>
          (\<exists>p \<in> set (physical_volumes vs). e \<in> set (pv_extent_list p))"
      by (simp add: stored_extents_def)
    also have "\<dots> \<longleftrightarrow> (\<exists>i < length (physical_volumes vs).
          e \<in> set (pv_extent_list (physical_volumes vs ! i)))"
      by (metis in_set_conv_nth)
    also have "\<dots> \<longleftrightarrow> (\<exists>i < num_physical_volumes vs. e \<in> set (pv_list_of vs i))"
      by (auto simp: pv_list_of_def num_physical_volumes_def)
    finally show ?thesis .
  qed
  show ?thesis
  proof
    assume "\<exists>e \<in> set (stored_extents vs). physical_volume_index e = pv \<and> P e"
    then obtain e i where "e \<in> set (pv_list_of vs i)" "physical_volume_index e = pv" "P e"
      using mem by blast
    with own [of e i] show "\<exists>e \<in> set (pv_list_of vs (unat pv)). P e" by auto
  next
    assume "\<exists>e \<in> set (pv_list_of vs (unat pv)). P e"
    then obtain e where e: "e \<in> set (pv_list_of vs (unat pv))" "P e" by blast
    then have "unat pv < num_physical_volumes vs"
      by (auto simp: pv_list_of_def split: if_splits)
    with e mem own [of e "unat pv"] show
      "\<exists>e \<in> set (stored_extents vs). physical_volume_index e = pv \<and> P e"
      by (auto simp: word_unat_eq_iff)
  qed
qed

text \<open>
  Claim C2, as amended. In a state reached by successful store calls, for a valid
  physical volume all of whose extents have a positive count and end below \<open>2 ^ 64\<close>,
  and for a query with \<open>c > 0\<close> and \<open>s + c < 2 ^ 64\<close>: \<open>check_overlap\<close> returns an
  extent exactly when some stored extent of that volume intersects \<open>[s, s + c)\<close>, and
  what it returns is the first intersecting extent of the volume's sorted list.
\<close>

theorem check_overlap_first_overlapping:
  assumes "store_calls_apply volume_state_initialize cs = Inr vs"
    and "unat pv < num_physical_volumes vs"
    and "\<forall>e \<in> set (pv_list_of vs (unat pv)). extent_in_range e"
    and "0 < c" and "unat s + unat c < 2 ^ 64"
  shows "(volume_state_check_overlap vs pv s c \<noteq> None \<longleftrightarrow> some_stored_overlap vs pv s c)
       \<and> volume_state_check_overlap vs pv s c =
            find (overlaps_query s c) (pv_list_of vs (unat pv))"
proof -
  have srt: "sorted (map physical_block_start (pv_list_of vs (unat pv)))"
    by (simp add: pv_list_sorted_history [OF assms(1)])
  have eq: "volume_state_check_overlap vs pv s c =
            find (overlaps_query s c) (pv_list_of vs (unat pv))"
    using assms(2) check_overlap_walk_find [OF srt assms(3,4,5)]
    by (simp add: volume_state_check_overlap_def pv_list_of_def)
  show ?thesis
    unfolding some_stored_overlap_def stored_extents_pv [OF assms(1)] eq
    by (auto simp: find_None_iff)
qed

lemmas store_eval_defs =
  volume_state_initialize_def
  volume_state_add_physical_volume_def volume_state_add_logical_volume_def
  volume_state_mark_reserved_def volume_state_mark_free_def volume_state_mark_allocated_def
  insert_extent_physical_def insert_extent_logical_def
  num_physical_volumes_def num_logical_volumes_def
  FVDECHECK_MAX_PHYSICAL_VOLUMES_def FVDECHECK_MAX_LOGICAL_VOLUMES_def Let_def
  reserved_extent_def free_extent_def allocated_extent_def extent_initialize_def
  volume_state_check_overlap_def volume_state_find_physical_extent_def
  stored_extents_def some_stored_overlap_def overlaps_query_def ranges_intersect_iff
  pv_list_of_def lv_list_of_def

text \<open>
  Claim C2 as stated fails in three ways. The empty query \<open>(5, 0)\<close> is reported to
  overlap the extent \<open>[0, 10)\<close>; the query \<open>(3, 4)\<close> is reported to overlap a stored
  extent of count 0 at block 5; and the query for the last block \<open>2 ^ 64 - 1\<close> misses
  the stored extent that holds this very block, because both ends wrap to 0.
\<close>

theorem check_overlap_counterexample:
  "store_calls_apply volume_state_initialize c2_empty_query_calls = Inr c2_empty_query_state
   \<and> unat (0 :: u32) < num_physical_volumes c2_empty_query_state
   \<and> volume_state_check_overlap c2_empty_query_state 0 5 0 \<noteq> None
   \<and> \<not> some_stored_overlap c2_empty_query_state 0 5 0
   \<and> store_calls_apply volume_state_initialize c2_empty_extent_calls = Inr c2_empty_extent_state
   \<and> unat (0 :: u32) < num_physical_volumes c2_empty_extent_state
   \<and> volume_state_check_overlap c2_empty_extent_state 0 3 4 \<noteq> None
   \<and> \<not> some_stored_overlap c2_empty_extent_state 0 3 4
   \<and> store_calls_apply volume_state_initialize c2_wrapping_calls = Inr c2_wrapping_state
   \<and> unat (0 :: u32) < num_physical_volumes c2_wrapping_state
   \<and> volume_state_check_overlap c2_wrapping_state 0 0xFFFFFFFFFFFFFFFF 1 = None
   \<and> some_stored_overlap c2_wrapping_state 0 0xFFFFFFFFFFFFFFFF 1"
  by (simp add: c2_empty_query_state_def c2_empty_extent_state_def c2_wrapping_state_def
      c2_empty_query_calls_def c2_empty_extent_calls_def c2_wrapping_calls_def
      store_eval_defs)

theorem check_overlap_first_overlapping_witness:
  "store_calls_apply volume_state_initialize (s2_calls 0 0 0x305 0 0 0x305) =
     Inr (s2_state 0 0 0x305 0 0 0x305)
   \<and> unat (0 :: u32) < num_physical_volumes (s2_state 0 0 0x305 0 0 0x305)
   \<and> list_all extent_in_range (pv_list_of (s2_state 0 0 0x305 0 0 0x305) (unat (0 :: u32)))
   \<and> (0 :: u64) < 3 \<and> unat (6 :: u64) + unat (3 :: u64) < 2 ^ 64
   \<and> volume_state_check_overlap (s2_state 0 0 0x305 0 0 0x305) 0 6 3 \<noteq> None
   \<and> some_stored_overlap (s2_state 0 0 0x305 0 0 0x305) 0 6 3
   \<and> volume_state_check_overlap (s2_state 0 0 0x305 0 0 0x305) 0 6 3 =
       find (overlaps_query 6 3) (pv_list_of (s2_state 0 0 0x305 0 0 0x305) (unat (0 :: u32)))"
proof -
  have run: "store_calls_apply volume_state_initialize (s2_calls 0 0 0x305 0 0 0x305) =
     Inr (s2_state 0 0 0x305 0 0 0x305)"
    by (rule s2_run)
  have pv: "unat (0 :: u32) < num_physical_volumes (s2_state 0 0 0x305 0 0 0x305)"
    by (simp add: s2_state_def num_physical_volumes_def)
  have rng: "\<forall>e \<in> set (pv_list_of (s2_state 0 0 0x305 0 0 0x305) (unat (0 :: u32))).
         extent_in_range e"
    by (simp add: s2_state_def pv_list_of_def num_physical_volumes_def extent_in_range_def
        reserved_extent_def allocated_extent_def extent_initialize_def)
  have c: "(0 :: u64) < 3" by simp
  have sc: "unat (6 :: u64) + unat (3 :: u64) < 2 ^ 64" by simp
  have some: "volume_state_check_overlap (s2_state 0 0 0x305 0 0 0x305) 0 6 3 \<noteq> None"
    by (simp add: s2_queries)
  from rng have rng': "list_all extent_in_range
      (pv_list_of (s2_state 0 0 0x305 0 0 0x305) (unat (0 :: u32)))"
    by (simp only: list_all_iff)
  from check_overlap_first_overlapping [OF run pv rng c sc] run pv rng' c sc some
  show ?thesis by blast
qed

lemma unat_sector_bytes:
  assumes "unat s * 512 < 2 ^ 64"
  shows "unat ((s :: u64) * 512) = unat s * 512"
  using assms unat_mult_lem [of s 512] by simp

lemma unat_ucast_block_size: "unat (ucast (b :: u32) :: u64) = unat b"
proof -
  have "unat b < 2 ^ 64"
    using unsigned_less [of b, where 'a = nat] by simp
  then show ?thesis
    by (simp add: unsigned_ucast_eq take_bit_nat_eq_self)
qed

lemma round_trip_nat:
  assumes "unat s * 512 < 2 ^ 64" "b \<noteq> 0"
  shows "unat (fvde_block_to_linux_sector (linux_sector_to_fvde_block s b) b) =
         (unat s * 512 div unat b) * unat b div 512"
proof -
  let ?q = "(s * 512) div ucast b :: u64"
  have q: "unat ?q = unat s * 512 div unat b"
    by (simp add: unat_div unat_sector_bytes [OF assms(1)] unat_ucast_block_size)
  have "unat s * 512 div unat b * unat b \<le> unat s * 512"
    by simp
  with assms(1) have "unat s * 512 div unat b * unat b < 2 ^ 64"
    by (rule le_less_trans [rotated])
  then have "unat ?q * unat (ucast b :: u64) < 2 ^ 64"
    unfolding q unat_ucast_block_size .
  then have "unat (?q * ucast b) = unat ?q * unat (ucast b :: u64)"
    using unat_mult_lem [of ?q "ucast b"] by simp
  then show ?thesis
    using assms(2)
    by (simp add: fvde_block_to_linux_sector_def linux_sector_to_fvde_block_def unat_div q
        unat_ucast_block_size unat_sector_bytes [OF assms(1)])
qed

lemma round_trip_zero_block_size:
  "fvde_block_to_linux_sector (linux_sector_to_fvde_block s 0) 0 = 0"
  by (simp add: fvde_block_to_linux_sector_def linux_sector_to_fvde_block_def)

lemma largest_aligned_sector_multiple:
  assumes "0 < k"
  shows "largest_aligned_sector s (512 * k) = (s div k) * k"
proof -
  have eq: "{t \<in> {0..s}. 512 * k dvd t * 512} = {t \<in> {0..s}. k dvd t}"
    by (auto simp: mult.commute)
  show ?thesis
    unfolding largest_aligned_sector_def eq
  proof (rule Max_eqI)
    show "finite {t \<in> {0..s}. k dvd t}" by simp
    show "s div k * k \<in> {t \<in> {0..s}. k dvd t}" by simp
    fix y assume "y \<in> {t \<in> {0..s}. k dvd t}"
    then obtain m where "y = k * m" "y \<le> s" by (auto elim: dvdE)
    then have "m \<le> s div k" using assms
      by (metis div_le_mono nonzero_mult_div_cancel_left less_numeral_extra(3))
    then show "y \<le> s div k * k" using \<open>y = k * m\<close> by (simp add: mult.commute)
  qed
qed

lemma largest_aligned_sector_zero: "largest_aligned_sector s 0 = 0"
proof -
  have "{t \<in> {0..s}. 0 dvd t * 512} = {0}" by auto
  then show ?thesis by (simp add: largest_aligned_sector_def)
qed

text \<open>
  Claim C9, as amended. For a sector number below \<open>2 ^ 55\<close> (so that \<open>s * 512\<close> does not
  wrap) and any block size \<open>b\<close>: the round trip returns \<open>s\<close> whenever \<open>s * 512\<close> is a
  multiple of \<open>b\<close>; and whenever \<open>b\<close> is a multiple of 512 it returns the largest
  sector not exceeding \<open>s\<close> whose byte offset is a multiple of \<open>b\<close>.
\<close>

theorem sector_block_round_trip:
  assumes "unat s * 512 < 2 ^ 64"
  shows "(unat b dvd unat s * 512 \<longrightarrow>
            fvde_block_to_linux_sector (linux_sector_to_fvde_block s b) b = s)
       \<and> (512 dvd unat b \<longrightarrow>
            unat (fvde_block_to_linux_sector (linux_sector_to_fvde_block s b) b) =
              largest_aligned_sector (unat s) (unat b))"
proof (cases "b = 0")
  case True
  have "unat s = 0" if "0 dvd unat s * 512" using that by simp
  then show ?thesis
    using True by (auto simp: round_trip_zero_block_size largest_aligned_sector_zero unat_eq_0)
next
  case False
  then have b: "0 < unat b" by (simp add: unat_gt_0)
  note rt = round_trip_nat [OF assms False]
  have 1: "fvde_block_to_linux_sector (linux_sector_to_fvde_block s b) b = s"
    if "unat b dvd unat s * 512"
  proof -
    from that have "unat s * 512 div unat b * unat b = unat s * 512" by simp
    with rt have "unat (fvde_block_to_linux_sector (linux_sector_to_fvde_block s b) b) = unat s"
      by simp
    then show ?thesis by (simp add: word_unat_eq_iff)
  qed
  have 2: "unat (fvde_block_to_linux_sector (linux_sector_to_fvde_block s b) b) =
              largest_aligned_sector (unat s) (unat b)"
    if "512 dvd unat b"
  proof -
    from that obtain k where k: "unat b = 512 * k" by (auto elim: dvdE)
    with b have "0 < k" by simp
    have "unat s * 512 div (512 * k) = unat s div k"
      by (simp add: mult.commute)
    then have "unat s * 512 div unat b * unat b div 512 = unat s div k * k"
      unfolding k by simp
    with rt show ?thesis
      by (simp add: k largest_aligned_sector_multiple [OF \<open>0 < k\<close>])
  qed
  from 1 2 show ?thesis by blast
qed

theorem sector_block_round_trip_witness:
  "unat (9 :: u64) * 512 < 2 ^ 64
   \<and> 512 dvd unat (4096 :: u32)
   \<and> fvde_block_to_linux_sector (linux_sector_to_fvde_block 9 4096) 4096 = 8
   \<and> largest_aligned_sector (unat (9 :: u64)) (unat (4096 :: u32)) = 8
   \<and> unat (4096 :: u32) dvd unat (16 :: u64) * 512
   \<and> fvde_block_to_linux_sector (linux_sector_to_fvde_block 16 4096) 4096 = 16"
proof -
  have a: "unat (9 :: u64) * 512 < 2 ^ 64" by simp
  have b: "512 dvd unat (4096 :: u32)" by simp
  have c: "fvde_block_to_linux_sector (linux_sector_to_fvde_block 9 4096) 4096 = 8"
    by (simp add: fvde_block_to_linux_sector_def linux_sector_to_fvde_block_def)
  have d: "unat (16 :: u64) * 512 < 2 ^ 64" by simp
  have e: "unat (4096 :: u32) dvd unat (16 :: u64) * 512" by simp
  from sector_block_round_trip [OF a, of 4096] b c
  have "largest_aligned_sector (unat (9 :: u64)) (unat (4096 :: u32)) = 8" by simp
  with sector_block_round_trip [OF d, of 4096] a b c e show ?thesis by blast
qed

text \<open>
  Claim C9 as stated fails twice. Sector \<open>2 ^ 55\<close> with block size 4096: the byte
  offset \<open>2 ^ 64\<close> is a multiple of 4096, but the product wraps to 0 and the round
  trip returns 0. Sector 2 with block size 768: the byte offset 1024 is no multiple of
  768, the round trip returns sector 1, but the largest sector up to 2 with an aligned
  byte offset is sector 0.
\<close>

theorem sector_block_round_trip_counterexample:
  "unat (4096 :: u32) dvd unat (0x80000000000000 :: u64) * 512
   \<and> fvde_block_to_linux_sector (linux_sector_to_fvde_block 0x80000000000000 4096) 4096 = 0
   \<and> fvde_block_to_linux_sector (linux_sector_to_fvde_block 0x80000000000000 4096) 4096
       \<noteq> 0x80000000000000
   \<and> \<not> unat (768 :: u32) dvd unat (2 :: u64) * 512
   \<and> fvde_block_to_linux_sector (linux_sector_to_fvde_block 2 768) 768 = 1
   \<and> largest_aligned_sector (unat (2 :: u64)) (unat (768 :: u32)) = 0"
proof -
  have only: "y = 0" if "y \<le> 2" "(768::nat) dvd y * 512" for y
  proof -
    from that(1) consider "y = 0" | "y = 1" | "y = 2" by arith
    then show ?thesis using that(2) by cases simp_all
  qed
  have "largest_aligned_sector 2 768 = 0"
    unfolding largest_aligned_sector_def
  proof (rule Max_eqI)
    show "finite {t \<in> {0..2::nat}. (768::nat) dvd t * 512}" by simp
    show "(0::nat) \<in> {t \<in> {0..2::nat}. (768::nat) dvd t * 512}" by simp
    fix y assume "y \<in> {t \<in> {0..2::nat}. (768::nat) dvd t * 512}"
    then have "y \<le> 2" "(768::nat) dvd y * 512" by simp_all
    then show "y \<le> 0" using only by blast
  qed
  then show ?thesis
    by (simp add: fvde_block_to_linux_sector_def linux_sector_to_fvde_block_def)
qed

lemma foldl_list_update_upt:
  "n \<le> length t \<Longrightarrow>
   foldl (\<lambda>table i. table[i := f i]) t [0..<n] = map f [0..<n] @ drop n t"
proof (induction n)
  case 0
  then show ?case by simp
next
  case (Suc n)
  then have "n < length t" by simp
  then have "(map f [0..<n] @ drop n t)[n := f n] = map f [0..<n] @ f n # drop (Suc n) t"
    by (simp add: list_update_append upd_conv_take_nth_drop)
  with Suc show ?case by simp
qed

lemma crc32_bit_iteration_reference:
  "crc32_bit_iteration polynomial =
     (\<lambda>c. if bit c 0 then drop_bit 1 c XOR polynomial else drop_bit 1 c)"
proof
  fix c :: u32
  have "c AND 1 \<noteq> 0 \<longleftrightarrow> bit c 0"
    by (simp add: and_one_eq bit_0 mod_2_eq_odd)
  then show "crc32_bit_iteration polynomial c =
     (if bit c 0 then drop_bit 1 c XOR polynomial else drop_bit 1 c)"
    by (simp add: crc32_bit_iteration_def xor.commute)
qed

lemma initialize_crc32_table_reference:
  assumes "length (crc32_table st) = 256"
  shows "dump_handle_initialize_crc32_table polynomial st =
         \<lparr> crc32_table = reference_table polynomial, crc32_table_initialized = True \<rparr>"
  using assms
  by (simp add: dump_handle_initialize_crc32_table_def foldl_list_update_upt reference_table_def
      crc32_table_entry_def crc32_bit_iteration_reference del: upt_Suc)

lemma foldl_weak_crc32_byte_reference:
  "foldl (weak_crc32_byte table) checksum buffer = reference_crc table checksum buffer"
  by (induction buffer arbitrary: checksum) (simp_all add: weak_crc32_byte_def)

lemma calculate_weak_crc32_at_start:
  "dump_handle_calculate_weak_crc32 crc32_statics_at_start buffer initial_value =
     (reference_crc (reference_table 0x82F63B78) initial_value buffer,
      \<lparr> crc32_table = reference_table 0x82F63B78, crc32_table_initialized = True \<rparr>)"
  by (simp add: dump_handle_calculate_weak_crc32_def crc32_statics_at_start_def
      initialize_crc32_table_reference foldl_weak_crc32_byte_reference)

lemma calculate_weak_crc32_initialized:
  "dump_handle_calculate_weak_crc32
     \<lparr> crc32_table = reference_table 0x82F63B78, crc32_table_initialized = True \<rparr>
     buffer initial_value =
     (reference_crc (reference_table 0x82F63B78) initial_value buffer,
      \<lparr> crc32_table = reference_table 0x82F63B78, crc32_table_initialized = True \<rparr>)"
  by (simp add: dump_handle_calculate_weak_crc32_def foldl_weak_crc32_byte_reference)

lemma crc32_statics_after_cases:
  "crc32_statics_after earlier = crc32_statics_at_start \<or>
   crc32_statics_after earlier =
     \<lparr> crc32_table = reference_table 0x82F63B78, crc32_table_initialized = True \<rparr>"
proof (induction earlier rule: rev_induct)
  case Nil
  then show ?case by (simp add: crc32_statics_after_def)
next
  case (snoc call earlier)
  obtain buffer iv where call: "call = (buffer, iv)" by (cases call)
  have step: "crc32_statics_after (earlier @ [call]) =
        snd (dump_handle_calculate_weak_crc32 (crc32_statics_after earlier) buffer iv)"
    by (simp add: crc32_statics_after_def call)
  from snoc show ?case
    unfolding step
    by (auto simp: calculate_weak_crc32_at_start calculate_weak_crc32_initialized)
qed

text \<open>
  Claim C5. Whatever checksums the program computed before, the weak CRC-32 of a byte
  sequence with an initial value is the reference checksum for polynomial
  \<open>0x82F63B78\<close>: table by the reflected construction, running checksum started at
  the initial value, one table step per byte.
\<close>

theorem weak_crc32_is_reference:
  "fst (dump_handle_calculate_weak_crc32 (crc32_statics_after earlier) bs iv) =
     reference_crc (reference_table 0x82F63B78) iv bs"
  using crc32_statics_after_cases [of earlier]
  by (auto simp: calculate_weak_crc32_at_start calculate_weak_crc32_initialized)

lemma add_key_refused_general:
  assumes "length mk = 16" "length tk = 32" "length buf = 48"
    "format_uuid_ok env" "format_description_ok env" "copy_master_key_ok env"
    "copy_tweak_key_ok env" "add_key_serial env < 0"
    "keyring_id = None \<or> keyring_id = Some ''@s''"
  shows "keyring_handle_add_key env (Some mk) 16 (Some tk) 32 (Some uuid) 16 keyring_id buf =
           keyring_outcome_of (Inl RUNTIME_SET_FAILED) (mk @ tk)
             (Some (mk @ tk, KEY_SPEC_SESSION_KEYRING))"
  using assms
  by (auto simp: keyring_handle_add_key_def Let_def KEY_SPEC_SESSION_KEYRING_def)

text \<open>
  Claim C8 fails on the code. When \<open>add_key\<close> fails, the function returns the
  set-failed runtime error and the stack buffer still holds master key and tweak key:
  the \<open>memory_set\<close> that zeroes it stands after the failure return. The same happens
  on the return for an unsupported keyring name.
\<close>

theorem add_key_failure_leaves_key_material:
  "returned (keyring_handle_add_key refusing_kernel (Some sample_master_key) 16
      (Some sample_tweak_key) 32 (Some (replicate 16 0)) 16 (Some ''@s'') (replicate 48 0))
     = Inl RUNTIME_SET_FAILED
   \<and> combined_key_at_return (keyring_handle_add_key refusing_kernel (Some sample_master_key) 16
      (Some sample_tweak_key) 32 (Some (replicate 16 0)) 16 (Some ''@s'') (replicate 48 0))
     = sample_master_key @ sample_tweak_key
   \<and> sample_master_key @ sample_tweak_key \<noteq> replicate 48 0
   \<and> returned (keyring_handle_add_key refusing_kernel (Some sample_master_key) 16
      (Some sample_tweak_key) 32 (Some (replicate 16 0)) 16 (Some ''bogus'') (replicate 48 0))
     = Inl ARGUMENT_UNSUPPORTED_VALUE
   \<and> combined_key_at_return (keyring_handle_add_key refusing_kernel (Some sample_master_key) 16
      (Some sample_tweak_key) 32 (Some (replicate 16 0)) 16 (Some ''bogus'') (replicate 48 0))
     = sample_master_key @ sample_tweak_key"
proof -
  have l: "length sample_master_key = 16" "length sample_tweak_key = 32"
    by (simp_all add: sample_master_key_def sample_tweak_key_def)
  have nz: "sample_master_key @ sample_tweak_key \<noteq> replicate 48 0"
  proof
    assume "sample_master_key @ sample_tweak_key = replicate 48 0"
    then have "(sample_master_key @ sample_tweak_key) ! 0 = replicate 48 (0 :: u8) ! 0"
      by simp
    then show False
      by (simp add: sample_master_key_def upt_conv_Cons)
  qed
  show ?thesis
    using l nz
    by (simp add: keyring_handle_add_key_def Let_def refusing_kernel_def
        keyring_outcome_of_def KEY_SPEC_SESSION_KEYRING_def)
qed

lemma memory_get_heap_buffer:
  "offset + n \<le> length buffer \<Longrightarrow>
   memory_get (heap_buffer buffer behind) offset n = take n (drop offset buffer)"
  by (rule nth_equalityI) (simp_all add: memory_get_def heap_buffer_def)

lemma read_metadata_copy_not_higher:
  assumes "block_transaction_identifier block \<le> highest_transaction_id scan"
  shows "read_metadata_copy scan i block = scan"
  using assms
  by (simp add: read_metadata_copy_def block_transaction_identifier_def
      copy_to_uint64_little_endian_def Let_def not_less [symmetric])

lemma read_metadata_copy_higher:
  assumes "highest_transaction_id scan < block_transaction_identifier block"
  shows "highest_transaction_id (read_metadata_copy scan i block) =
           block_transaction_identifier block"
    and "best_metadata_index (read_metadata_copy scan i block) = i"
    and "scan_fields (read_metadata_copy scan i block) =
           (if 64 < block_descriptor_offset block then block_fields block else scan_fields scan)"
  using assms
  by (simp_all add: read_metadata_copy_def block_transaction_identifier_def Let_def
      block_descriptor_offset_def block_descriptor_field_def scan_fields_def block_fields_def
      copy_to_uint64_little_endian_def copy_to_uint32_little_endian_def add.commute)

lemma read_metadata_copies_Cons:
  assumes "read_metadata_copies source h behind scan (i # rest) = Inr scan'"
  shows "read_metadata_copies source h behind
           (read_metadata_copy scan i (metadata_copy source h behind i)) rest = Inr scan'"
  using assms
  by (auto simp: file_read_def metadata_copy_def split: sum.splits if_splits)

lemma read_metadata_copies_append:
  "read_metadata_copies source h behind scan (xs @ ys) = Inr scan' \<longleftrightarrow>
   (\<exists>mid. read_metadata_copies source h behind scan xs = Inr mid
        \<and> read_metadata_copies source h behind mid ys = Inr scan')"
  by (induction xs arbitrary: scan) (auto split: sum.splits)

lemma read_metadata_copy_highest:
  "highest_transaction_id (read_metadata_copy scan i block) =
     max (highest_transaction_id scan) (block_transaction_identifier block)"
proof (cases "highest_transaction_id scan < block_transaction_identifier block")
  case True
  with read_metadata_copy_higher(1) show ?thesis by (auto simp: max_def)
next
  case False
  then show ?thesis by (simp add: read_metadata_copy_not_higher max_def not_less)
qed

lemma read_metadata_copies_unchanged:
  assumes "read_metadata_copies source h behind scan copies = Inr scan'"
    and "\<forall>i \<in> set copies. block_transaction_identifier (metadata_copy source h behind i)
                             \<le> highest_transaction_id scan"
  shows "scan' = scan"
  using assms
proof (induction copies arbitrary: scan)
  case Nil
  then show ?case by simp
next
  case (Cons i rest)
  let ?scan1 = "read_metadata_copy scan i (metadata_copy source h behind i)"
  have 2: "read_metadata_copies source h behind ?scan1 rest = Inr scan'"
    by (rule read_metadata_copies_Cons [OF Cons.prems(1)])
  from Cons.prems(2) have "?scan1 = scan"
    by (simp add: read_metadata_copy_not_higher)
  with 2 Cons show ?case by simp
qed

lemma read_metadata_copies_highest_below:
  assumes "read_metadata_copies source h behind scan copies = Inr scan'"
    and "highest_transaction_id scan < bound"
    and "\<forall>i \<in> set copies.
           block_transaction_identifier (metadata_copy source h behind i) < bound"
  shows "highest_transaction_id scan' < bound"
  using assms
proof (induction copies arbitrary: scan)
  case Nil
  then show ?case by simp
next
  case (Cons i rest)
  let ?scan1 = "read_metadata_copy scan i (metadata_copy source h behind i)"
  have 2: "read_metadata_copies source h behind ?scan1 rest = Inr scan'"
    by (rule read_metadata_copies_Cons [OF Cons.prems(1)])
  from Cons.prems(2,3) have "highest_transaction_id ?scan1 < bound"
    by (simp add: read_metadata_copy_highest)
  with 2 Cons show ?case by simp
qed

lemma read_metadata_copies_origin:
  assumes "read_metadata_copies source h behind scan copies = Inr scan'"
  shows "scan_fields scan' = scan_fields scan \<or>
         (\<exists>p < length copies.
            scan_fields scan' = block_fields (metadata_copy source h behind (copies ! p))
          \<and> 64 < block_descriptor_offset (metadata_copy source h behind (copies ! p))
          \<and> highest_transaction_id scan
               < block_transaction_identifier (metadata_copy source h behind (copies ! p))
          \<and> (\<forall>q < p. block_transaction_identifier (metadata_copy source h behind (copies ! q))
                < block_transaction_identifier (metadata_copy source h behind (copies ! p))))"
  using assms
proof (induction copies arbitrary: scan)
  case Nil
  then show ?case by simp
next
  case (Cons i rest)
  let ?copy = "metadata_copy source h behind"
  let ?txid = "\<lambda>j. block_transaction_identifier (?copy j)"
  let ?origin = "\<lambda>low p.
       scan_fields scan' = block_fields (?copy ((i # rest) ! p))
     \<and> 64 < block_descriptor_offset (?copy ((i # rest) ! p))
     \<and> low < ?txid ((i # rest) ! p)
     \<and> (\<forall>q < p. ?txid ((i # rest) ! q) < ?txid ((i # rest) ! p))"
  let ?scan1 = "read_metadata_copy scan i (?copy i)"
  have 2: "read_metadata_copies source h behind ?scan1 rest = Inr scan'"
    by (rule read_metadata_copies_Cons [OF Cons.prems])
  have hi: "highest_transaction_id scan \<le> highest_transaction_id ?scan1"
    and hi2: "?txid i \<le> highest_transaction_id ?scan1"
    by (simp_all add: read_metadata_copy_highest)
  from Cons.IH [OF 2] consider
      (same) "scan_fields scan' = scan_fields ?scan1"
    | (later) p where "p < length rest"
        "scan_fields scan' = block_fields (?copy (rest ! p))"
        "64 < block_descriptor_offset (?copy (rest ! p))"
        "highest_transaction_id ?scan1 < ?txid (rest ! p)"
        "\<forall>q < p. ?txid (rest ! q) < ?txid (rest ! p)"
    by blast
  then show ?case
  proof cases
    case same
    show ?thesis
    proof (cases "highest_transaction_id scan < ?txid i
                  \<and> 64 < block_descriptor_offset (?copy i)")
      case True
      with read_metadata_copy_higher(3) [of scan "?copy i" i] same
      have "?origin (highest_transaction_id scan) 0" by simp
      then show ?thesis by blast
    next
      case False
      have "scan_fields ?scan1 = scan_fields scan"
      proof (cases "highest_transaction_id scan < ?txid i")
        case True
        with False read_metadata_copy_higher(3) [of scan "?copy i" i] show ?thesis by simp
      next
        case False
        then show ?thesis by (simp add: read_metadata_copy_not_higher not_less)
      qed
      with same show ?thesis by simp
    qed
  next
    case later
    have "\<forall>q < Suc p. ?txid ((i # rest) ! q) < ?txid (rest ! p)"
    proof (intro allI impI)
      fix q assume "q < Suc p"
      show "?txid ((i # rest) ! q) < ?txid (rest ! p)"
      proof (cases q)
        case 0
        with hi2 later(4) show ?thesis by simp
      next
        case (Suc q')
        with \<open>q < Suc p\<close> later(5) show ?thesis by simp
      qed
    qed
    with later hi have "Suc p < length (i # rest) \<and> ?origin (highest_transaction_id scan) (Suc p)"
      by auto
    then show ?thesis by blast
  qed
qed

lemma read_metadata_copies_first_highest:
  assumes "read_metadata_copies source h behind scan (xs @ k # ys) = Inr scan'"
    and "highest_transaction_id scan
           < block_transaction_identifier (metadata_copy source h behind k)"
    and "\<forall>j \<in> set xs. block_transaction_identifier (metadata_copy source h behind j)
                       < block_transaction_identifier (metadata_copy source h behind k)"
    and "\<forall>j \<in> set ys. block_transaction_identifier (metadata_copy source h behind j)
                       \<le> block_transaction_identifier (metadata_copy source h behind k)"
    and "64 < block_descriptor_offset (metadata_copy source h behind k)"
  shows "scan_fields scan' = block_fields (metadata_copy source h behind k)"
    and "best_metadata_index scan' = k"
proof -
  from assms(1) obtain mid where
    a: "read_metadata_copies source h behind scan xs = Inr mid" and
    b: "read_metadata_copies source h behind mid (k # ys) = Inr scan'"
    unfolding read_metadata_copies_append by blast
  let ?scan1 = "read_metadata_copy mid k (metadata_copy source h behind k)"
  have 2: "read_metadata_copies source h behind ?scan1 ys = Inr scan'"
    by (rule read_metadata_copies_Cons [OF b])
  have lt: "highest_transaction_id mid
              < block_transaction_identifier (metadata_copy source h behind k)"
    by (rule read_metadata_copies_highest_below [OF a assms(2,3)])
  note s1 = read_metadata_copy_higher [OF lt, of k]
  from s1(1) assms(4) have "scan' = ?scan1"
    by (intro read_metadata_copies_unchanged [OF 2]) simp
  with s1 assms(5) show "scan_fields scan' = block_fields (metadata_copy source h behind k)"
    and "best_metadata_index scan' = k"
    by simp_all
qed

lemma map_sum_id_Inr_iff [simp]:
  "map_sum id g x = Inr y \<longleftrightarrow> (\<exists>z. x = Inr z \<and> y = g z)"
  by (cases x) auto

lemma read_metadata_copies_flag:
  "read_metadata_copies source (h\<lparr> best_metadata_only := b \<rparr>) behind scan copies =
   read_metadata_copies source h behind scan copies"
  by (induction copies arbitrary: scan) (simp_all split: sum.splits)

lemma read_metadata_flag:
  "dump_handle_read_metadata source (h\<lparr> best_metadata_only := b \<rparr>) behind =
   map_sum id (\<lambda>h'. h'\<lparr> best_metadata_only := b \<rparr>) (dump_handle_read_metadata source h behind)"
  by (simp add: dump_handle_read_metadata_def read_metadata_copies_flag split: sum.splits)

lemma copy_chunks_settings:
  "copy_chunks source run sp dp n = Inr run' \<Longrightarrow>
   settings (handle run') = settings (handle run)"
proof (induction source run sp dp n rule: copy_chunks.induct)
  case (1 source run sp dp remaining)
  show ?case
  proof (cases "remaining = 0")
    case True
    with "1.prems" show ?thesis by (subst (asm) copy_chunks.simps) simp
  next
    case False
    let ?n = "if 64 * 1024 < remaining then 64 * 1024 else remaining"
    let ?run1 = "run\<lparr> destination :=
                        file_put (destination run) dp (take ?n (drop sp source)),
                     handle := (handle run)
                        \<lparr> bytes_copied := bytes_copied (handle run) + of_nat ?n \<rparr> \<rparr>"
    from "1.prems" False have
      "\<not> abort (handle run) \<and> ?n \<le> length source - sp
       \<and> copy_chunks source ?run1 (sp + ?n) (dp + ?n) (remaining - ?n) = Inr run'"
      by (subst (asm) copy_chunks.simps) (simp add: Let_def split: if_splits)
    then have ok: "\<not> abort (handle run)" "?n \<le> length source - sp"
      and rec: "copy_chunks source ?run1 (sp + ?n) (dp + ?n) (remaining - ?n) = Inr run'"
      by simp_all
    have "settings (handle run') = settings (handle ?run1)"
      by (rule "1.IH" [OF False _ refl _ rec]) (use ok in simp_all)
    then show ?thesis by (simp add: settings_def)
  qed
qed

lemma copy_region_settings:
  "dump_handle_copy_region source run so d n = Inr run' \<Longrightarrow>
   settings (handle run') = settings (handle run)"
  by (auto simp: dump_handle_copy_region_def dest: copy_chunks_settings split: if_splits)

lemma write_corrected_metadata_settings:
  "dump_handle_write_corrected_metadata source run behind so d e1 e2 = Inr run' \<Longrightarrow>
   settings (handle run') = settings (handle run)"
  by (auto simp: dump_handle_write_corrected_metadata_def settings_def case_prod_beta Let_def
      split: sum.splits)

lemma write_corrected_volume_header_settings:
  "dump_handle_write_corrected_volume_header source run = Inr run' \<Longrightarrow>
   settings (handle run') = settings (handle run)"
  by (auto simp: dump_handle_write_corrected_volume_header_def settings_def Let_def
      case_prod_beta simp del: correct_metadata_slots.simps split: sum.splits if_splits)

lemma dump_volume_header_settings:
  "settings (handle run') = settings (handle run)"
  if "dump_volume_header source run = Inr (run', offset')"
proof (cases "compact (handle run)")
  case True
  with that obtain run1 where
    "dump_handle_write_corrected_volume_header source
       (run\<lparr> handle := (handle run)\<lparr> bytes_copied := 0 \<rparr> \<rparr>) = Inr run1" "run' = run1"
    by (auto simp: dump_volume_header_def Let_def split: sum.splits)
  then show ?thesis
    using write_corrected_volume_header_settings by (fastforce simp: settings_def)
next
  case False
  let ?n = "unat (physical_volume_size (handle run))"
  let ?run1 = "run\<lparr> handle := (handle run)\<lparr> bytes_copied := 0 \<rparr>,
                   destination := take ?n (destination run)
                      @ replicate (?n - length (destination run)) 0 \<rparr>"
  from False that have "dump_handle_copy_region source ?run1 0 0 512 = Inr run'"
    by (auto simp: dump_volume_header_def Let_def split: sum.splits if_splits)
  then have "settings (handle run') = settings (handle ?run1)"
    by (rule copy_region_settings)
  then show ?thesis by (simp add: settings_def)
qed

lemma dump_metadata_copies_settings:
  "dump_metadata_copies source run behind offset copies = Inr (run', offset') \<Longrightarrow>
   settings (handle run') = settings (handle run)"
proof (induction copies arbitrary: run offset)
  case Nil
  then show ?case by simp
next
  case (Cons i rest)
  then show ?case
    by (auto simp: Let_def split: if_splits sum.splits
        dest!: copy_region_settings write_corrected_metadata_settings)
qed

lemma settings_encrypted_offsets:
  assumes "settings h' = settings h"
  shows "encrypted_metadata1_offset h' = encrypted_metadata1_offset h"
    and "encrypted_metadata2_offset h' = encrypted_metadata2_offset h"
proof -
  have "encrypted_metadata1_offset (settings h') = encrypted_metadata1_offset (settings h)"
    "encrypted_metadata2_offset (settings h') = encrypted_metadata2_offset (settings h)"
    using assms by simp_all
  then show "encrypted_metadata1_offset h' = encrypted_metadata1_offset h"
    and "encrypted_metadata2_offset h' = encrypted_metadata2_offset h"
    by (simp_all add: settings_def)
qed

lemma dump_without_encrypted_metadata:
  assumes "encrypted_metadata1_offset (handle run) = 0"
    and "encrypted_metadata2_offset (handle run) = 0"
  shows "dump_handle_dump source behind run = dump_header_and_metadata source behind run"
proof (cases "dump_volume_header source run")
  case (Inl e)
  then show ?thesis by (simp add: dump_handle_dump_def dump_header_and_metadata_def)
next
  case (Inr r1)
  obtain run1 offset1 where r1: "r1 = (run1, offset1)" by (cases r1)
  note s1 = dump_volume_header_settings [OF Inr [unfolded r1]]
  show ?thesis
  proof (cases "dump_metadata_copies source run1 behind offset1 [0, 1, 2, 3]")
    case (Inl e)
    with Inr r1 show ?thesis by (simp add: dump_handle_dump_def dump_header_and_metadata_def)
  next
    case (Inr r2)
    obtain run2 offset2 where r2: "r2 = (run2, offset2)" by (cases r2)
    note s2 = dump_metadata_copies_settings [OF Inr [unfolded r2]]
    have "encrypted_metadata1_offset (handle run2) = 0"
      "encrypted_metadata2_offset (handle run2) = 0"
      using settings_encrypted_offsets [OF s2] settings_encrypted_offsets [OF s1] assms
      by simp_all
    with \<open>dump_volume_header source run = Inr r1\<close> r1 Inr r2 show ?thesis
      by (simp add: dump_handle_dump_def dump_header_and_metadata_def
          dump_encrypted_metadata_def)
  qed
qed

lemma copies_upt_split:
  assumes "k < 4"
  shows "[0, 1, 2, 3] = [0..<k] @ k # [Suc k..<4]"
proof -
  have "[0, 1, 2, 3] = [0..<4]" by (simp add: upt_rec)
  also have "\<dots> = [0..<k] @ [k..<4]"
    using assms by (metis le_add_diff_inverse less_imp_le_nat upt_add_eq_append zero_le)
  also have "[k..<4] = k # [Suc k..<4]"
    using assms by (rule upt_conv_Cons)
  finally show ?thesis .
qed

text \<open>
  Claim C10. When \<open>dump_handle_read_metadata\<close> succeeds, whatever the memory behind its
  buffer holds: (1) the descriptor in the handle is either the initial zero descriptor
  or that of a copy \<open>k\<close> with a descriptor offset above 64 whose transaction identifier
  is positive and strictly greater than that of every earlier copy; (2) if copy \<open>k\<close> is
  the first to reach the highest transaction identifier and has a descriptor, the handle
  holds the descriptor of copy \<open>k\<close>, whatever later copies with the same identifier
  hold; (3) the result does not depend on \<open>best_metadata_only\<close>; (4) if all four
  transaction identifiers are 0, the two encrypted-metadata offsets and the size are 0,
  and a dump with both offsets 0 is the dump of header and metadata copies alone. The
  descriptor of a copy is read where the code reads it, at the copy's descriptor offset
  in the memory at the buffer, be it inside the copy or behind it.
\<close>

theorem metadata_selection:
  assumes "dump_handle_read_metadata source h behind = Inr h'"
  shows "(handle_descriptor h' = stored_descriptor h (0, 0, 0)
          \<or> (\<exists>k < 4. handle_descriptor h' =
                        stored_descriptor h (block_fields (metadata_copy source h behind k))
                \<and> 64 < block_descriptor_offset (metadata_copy source h behind k)
                \<and> 0 < block_transaction_identifier (metadata_copy source h behind k)
                \<and> (\<forall>j < k. block_transaction_identifier (metadata_copy source h behind j)
                       < block_transaction_identifier (metadata_copy source h behind k))))
       \<and> (\<forall>k < 4.
             (\<forall>j < k. block_transaction_identifier (metadata_copy source h behind j)
                        < block_transaction_identifier (metadata_copy source h behind k))
           \<and> (\<forall>j < 4. block_transaction_identifier (metadata_copy source h behind j)
                        \<le> block_transaction_identifier (metadata_copy source h behind k))
           \<and> 0 < block_transaction_identifier (metadata_copy source h behind k)
           \<and> 64 < block_descriptor_offset (metadata_copy source h behind k)
           \<longrightarrow> handle_descriptor h' =
                 stored_descriptor h (block_fields (metadata_copy source h behind k)))
       \<and> dump_handle_read_metadata source (h\<lparr> best_metadata_only := b \<rparr>) behind =
           Inr (h'\<lparr> best_metadata_only := b \<rparr>)
       \<and> ((\<forall>j < 4. block_transaction_identifier (metadata_copy source h behind j) = 0)
            \<longrightarrow> encrypted_metadata1_offset h' = 0 \<and> encrypted_metadata2_offset h' = 0
                \<and> encrypted_metadata_size h' = 0)
       \<and> (\<forall>run dump_behind. encrypted_metadata1_offset (handle run) = 0
                \<and> encrypted_metadata2_offset (handle run) = 0
             \<longrightarrow> dump_handle_dump source dump_behind run =
                   dump_header_and_metadata source dump_behind run)"
proof -
  let ?copy = "metadata_copy source h behind"
  let ?txid = "\<lambda>j. block_transaction_identifier (?copy j)"
  from assms obtain scan where
    loop: "read_metadata_copies source h behind metadata_scan_start [0, 1, 2, 3] = Inr scan"
    and h': "handle_descriptor h' = stored_descriptor h (scan_fields scan)"
    by (auto simp: dump_handle_read_metadata_def handle_descriptor_def stored_descriptor_def
        scan_fields_def split: if_splits sum.splits)
  have start: "scan_fields metadata_scan_start = (0, 0, 0)"
    "highest_transaction_id metadata_scan_start = 0"
    by (simp_all add: scan_fields_def metadata_scan_start_def)
  have 1: "handle_descriptor h' = stored_descriptor h (0, 0, 0)
          \<or> (\<exists>k < 4. handle_descriptor h' = stored_descriptor h (block_fields (?copy k))
                \<and> 64 < block_descriptor_offset (?copy k)
                \<and> 0 < ?txid k \<and> (\<forall>j < k. ?txid j < ?txid k))"
  proof -
    have len: "length [0, 1, 2, 3 :: nat] = 4" by simp
    from read_metadata_copies_origin [OF loop, unfolded start len] consider
        "scan_fields scan = (0, 0, 0)"
      | p where "p < 4"
          "scan_fields scan = block_fields (?copy ([0, 1, 2, 3] ! p))"
          "64 < block_descriptor_offset (?copy ([0, 1, 2, 3] ! p))"
          "0 < ?txid ([0, 1, 2, 3] ! p)"
          "\<forall>q < p. ?txid ([0, 1, 2, 3] ! q) < ?txid ([0, 1, 2, 3] ! p)"
      by blast
    then show ?thesis
    proof cases
      case 1
      with h' show ?thesis by simp
    next
      case 2
      have nth: "[0, 1, 2, 3] ! q = q" if "q < 4" for q :: nat
      proof -
        have "[0, 1, 2, 3] = [0..<4]" by (simp add: upt_rec)
        with that show ?thesis by simp
      qed
      from 2(1) have p: "[0, 1, 2, 3] ! p = p" by (rule nth)
      from 2(5) have "\<forall>q < p. ?txid q < ?txid p"
        using 2(1) nth p by (metis less_trans)
      with 2 h' p show ?thesis by auto
    qed
  qed
  have 2: "handle_descriptor h' = stored_descriptor h (block_fields (?copy k))"
    if "k < 4" "\<forall>j < k. ?txid j < ?txid k" "\<forall>j < 4. ?txid j \<le> ?txid k" "0 < ?txid k"
      "64 < block_descriptor_offset (?copy k)" for k
  proof -
    have "scan_fields scan = block_fields (?copy k)"
    proof (rule read_metadata_copies_first_highest(1))
      show "read_metadata_copies source h behind metadata_scan_start
              ([0..<k] @ k # [Suc k..<4]) = Inr scan"
        using loop by (simp only: copies_upt_split [OF that(1), symmetric])
      show "highest_transaction_id metadata_scan_start < ?txid k"
        using that(4) by (simp add: start)
      show "\<forall>j \<in> set [0..<k]. ?txid j < ?txid k" using that(2) by simp
      show "\<forall>j \<in> set [Suc k..<4]. ?txid j \<le> ?txid k" using that(3) by simp
      show "64 < block_descriptor_offset (?copy k)" by (rule that(5))
    qed
    with h' show ?thesis by simp
  qed
  have 3: "dump_handle_read_metadata source (h\<lparr> best_metadata_only := b \<rparr>) behind =
           Inr (h'\<lparr> best_metadata_only := b \<rparr>)"
    by (simp add: read_metadata_flag assms)
  have 4: "encrypted_metadata1_offset h' = 0 \<and> encrypted_metadata2_offset h' = 0
                \<and> encrypted_metadata_size h' = 0"
    if "\<forall>j < 4. ?txid j = 0"
  proof -
    have "scan = metadata_scan_start"
      by (rule read_metadata_copies_unchanged [OF loop]) (use that in \<open>simp add: start\<close>)
    with h' show ?thesis
      by (simp add: handle_descriptor_def stored_descriptor_def start)
  qed
  from 1 2 3 4 dump_without_encrypted_metadata show ?thesis
    by blast
qed

lemma length_le_bytes [simp]: "length (le_bytes n v) = n"
  by (simp add: le_bytes_def)

lemma le_bytes_Suc:
  "le_bytes (Suc n) v = ucast v # le_bytes n (drop_bit 8 v)"
proof -
  have "drop_bit (8 * Suc i) v = drop_bit (8 * i) (drop_bit 8 v)" for i
    by (simp only: drop_bit_drop_bit mult_Suc_right add.commute [of 8])
  then show ?thesis
    unfolding le_bytes_def map_upt_Suc by simp
qed

lemma le_bytes_0 [simp]: "le_bytes 0 v = []"
  by (simp add: le_bytes_def)

lemma bit_le_word_le_bytes:
  "bit (le_word (le_bytes n v) :: 'a::len word) k \<longleftrightarrow> k < 8 * n \<and> bit v k"
  for v :: "'a::len word"
proof (induction n arbitrary: v k)
  case 0
  then show ?case by simp
next
  case (Suc n)
  have len: "k < LENGTH('a)" if "bit v k" using that by (rule bit_imp_le_length)
  show ?case
  proof (cases "k < 8")
    case True
    then show ?thesis
      using len
      by (auto simp: le_bytes_Suc bit_or_iff bit_push_bit_iff bit_ucast_iff Suc)
  next
    case False
    then show ?thesis
      using len
      by (auto simp: le_bytes_Suc bit_or_iff bit_push_bit_iff bit_ucast_iff Suc
          bit_drop_bit_eq add.commute)
  qed
qed

lemma le_word_le_bytes_64 [simp]: "le_word (le_bytes 8 (v :: u64)) = v"
  by (rule bit_word_eqI) (simp add: bit_le_word_le_bytes)

lemma le_word_le_bytes_32 [simp]: "le_word (le_bytes 4 (v :: u32)) = v"
  by (rule bit_word_eqI) (simp add: bit_le_word_le_bytes)

lemma all_less_4: "(\<forall>j < 4 :: nat. P j) \<longleftrightarrow> P 0 \<and> P (Suc 0) \<and> P 2 \<and> P 3"
proof -
  have "j < 4 \<longleftrightarrow> j = 0 \<or> j = Suc 0 \<or> j = 2 \<or> j = 3" for j :: nat
    by arith
  then show ?thesis by auto
qed

lemma length_small_copy [simp]: "length (small_copy t s a b) = 256"
  by (simp add: small_copy_def)

lemma small_copy_fields:
  "block_transaction_identifier (heap_buffer (small_copy t s a b) behind) = t"
  "block_descriptor_offset (heap_buffer (small_copy t s a b) behind) = 100"
  "block_fields (heap_buffer (small_copy t s a b) behind) = (s, a, b)"
proof -
  show t: "block_transaction_identifier (heap_buffer (small_copy t s a b) behind) = t"
    by (simp add: block_transaction_identifier_def memory_get_heap_buffer)
      (simp add: small_copy_def)
  show d: "block_descriptor_offset (heap_buffer (small_copy t s a b) behind) = 100"
    by (simp add: block_descriptor_offset_def memory_get_heap_buffer)
      (simp add: small_copy_def)
  show "block_fields (heap_buffer (small_copy t s a b) behind) = (s, a, b)"
    by (simp add: block_fields_def block_descriptor_field_def d memory_get_heap_buffer)
      (simp add: small_copy_def)
qed

lemma small_copies:
  "metadata_copy small_source small_handle behind 0 = heap_buffer (small_copy 5 1 9 19) behind"
  "metadata_copy small_source small_handle behind (Suc 0) =
     heap_buffer (small_copy 7 2 10 20) behind"
  "metadata_copy small_source small_handle behind 2 = heap_buffer (small_copy 7 3 11 21) behind"
  "metadata_copy small_source small_handle behind 3 = heap_buffer (small_copy 3 4 12 22) behind"
  by (simp_all add: metadata_copy_def small_source_def small_handle_def)

lemma small_file_reads:
  "file_read small_source (metadata_offsets small_handle ! 0)
     (unat (metadata_size small_handle)) = Inr (small_copy 5 1 9 19)"
  "file_read small_source (metadata_offsets small_handle ! Suc 0)
     (unat (metadata_size small_handle)) = Inr (small_copy 7 2 10 20)"
  "file_read small_source (metadata_offsets small_handle ! 2)
     (unat (metadata_size small_handle)) = Inr (small_copy 7 3 11 21)"
  "file_read small_source (metadata_offsets small_handle ! 3)
     (unat (metadata_size small_handle)) = Inr (small_copy 3 4 12 22)"
  by (simp_all add: file_read_def small_source_def small_handle_def)

lemma small_copy_step:
  "read_metadata_copy scan j (heap_buffer (small_copy t s a b) behind) =
     (if highest_transaction_id scan < t
      then scan\<lparr> highest_transaction_id := t, best_metadata_index := j,
                 scan_encrypted_metadata_size := s,
                 scan_encrypted_metadata1_offset := a,
                 scan_encrypted_metadata2_offset := b \<rparr>
      else scan)"
proof (cases "highest_transaction_id scan < t")
  case True
  let ?r = "read_metadata_copy scan j (heap_buffer (small_copy t s a b) behind)"
  from True have lt: "highest_transaction_id scan
      < block_transaction_identifier (heap_buffer (small_copy t s a b) behind)"
    by (simp add: small_copy_fields)
  have d: "le_word (take 4 (drop 220 (small_copy t s a b))) = (100 :: u32)"
    by (simp add: small_copy_def)
  have "?r = scan\<lparr> highest_transaction_id := t, best_metadata_index := j,
                 scan_encrypted_metadata_size := s,
                 scan_encrypted_metadata1_offset := a,
                 scan_encrypted_metadata2_offset := b \<rparr>"
    using True
    by (simp add: read_metadata_copy_def Let_def copy_to_uint64_little_endian_def
        copy_to_uint32_little_endian_def memory_get_heap_buffer d)
      (simp add: small_copy_def)
  with True show ?thesis by simp
next
  case False
  then show ?thesis
    by (simp add: read_metadata_copy_not_higher small_copy_fields not_less)
qed

lemma small_read_metadata:
  "dump_handle_read_metadata small_source small_handle behind = Inr small_result"
proof -
  have "read_metadata_copies small_source small_handle behind metadata_scan_start [0, 1, 2, 3] =
        Inr \<lparr> highest_transaction_id = 7, best_metadata_index = 1,
              scan_encrypted_metadata_size = 2, scan_encrypted_metadata1_offset = 10,
              scan_encrypted_metadata2_offset = 20 \<rparr>"
    by (simp add: small_file_reads small_copy_step metadata_scan_start_def)
  then show ?thesis
    by (simp add: dump_handle_read_metadata_def small_result_def small_handle_def
        dump_handle_initialize_def)
qed

theorem metadata_selection_witness:
  "dump_handle_read_metadata small_source small_handle zero_memory = Inr small_result
   \<and> map (\<lambda>j. block_transaction_identifier
                (metadata_copy small_source small_handle zero_memory j))
        [0, 1, 2, 3] = [5, 7, 7, 3]
   \<and> 64 < block_descriptor_offset (metadata_copy small_source small_handle zero_memory 1)
   \<and> handle_descriptor small_result =
        stored_descriptor small_handle
          (block_fields (metadata_copy small_source small_handle zero_memory 1))
   \<and> block_fields (metadata_copy small_source small_handle zero_memory 1) = (2, 10, 20)
   \<and> block_fields (metadata_copy small_source small_handle zero_memory 2) = (3, 11, 21)
   \<and> dump_handle_read_metadata small_source (small_handle\<lparr> best_metadata_only := True \<rparr>)
        zero_memory = Inr (small_result\<lparr> best_metadata_only := True \<rparr>)"
proof -
  let ?copy = "metadata_copy small_source small_handle zero_memory"
  note sel = metadata_selection [OF small_read_metadata, of zero_memory True]
  have tx: "map (\<lambda>j. block_transaction_identifier (?copy j)) [0, 1, 2, 3] = [5, 7, 7, 3]"
    by (simp add: small_copies small_copy_fields)
  have fields: "block_fields (?copy 1) = (2, 10, 20)"
    "block_fields (?copy 2) = (3, 11, 21)"
    "64 < block_descriptor_offset (?copy 1)"
    by (simp_all add: small_copies small_copy_fields)
  have first: "\<forall>j < 1. block_transaction_identifier (?copy j)
        < block_transaction_identifier (?copy 1)"
    by (simp add: small_copies small_copy_fields)
  have highest: "\<forall>j < 4. block_transaction_identifier (?copy j)
        \<le> block_transaction_identifier (?copy 1)"
    by (simp add: all_less_4 small_copies small_copy_fields)
  have pos: "0 < block_transaction_identifier (?copy 1)"
    by (simp add: small_copies small_copy_fields)
  have "handle_descriptor small_result =
       stored_descriptor small_handle (block_fields (?copy 1))"
  proof (rule sel [THEN conjunct2, THEN conjunct1, rule_format, of 1])
    show "(1 :: nat) < 4" by simp
    from first highest pos fields(3) show
      "(\<forall>j < 1. block_transaction_identifier (?copy j)
          < block_transaction_identifier (?copy 1))
       \<and> (\<forall>j < 4. block_transaction_identifier (?copy j)
          \<le> block_transaction_identifier (?copy 1))
       \<and> 0 < block_transaction_identifier (?copy 1)
       \<and> 64 < block_descriptor_offset (?copy 1)"
      by (intro conjI)
  qed
  with small_read_metadata [of zero_memory] tx fields
    sel [THEN conjunct2, THEN conjunct2, THEN conjunct1]
  show ?thesis
    by (intro conjI)
qed

lemma le_word_zeros [simp]: "le_word (replicate n 0) = 0"
  by (induction n) simp_all

lemma memory_get_behind:
  "length buffer \<le> offset \<Longrightarrow>
   memory_get (heap_buffer buffer behind) offset n =
     map behind [offset - length buffer..<offset - length buffer + n]"
  by (rule nth_equalityI) (simp_all add: memory_get_def heap_buffer_def)

text \<open>
  The descriptor of a copy that points past the end of the buffer is read from the
  memory behind the buffer, and the function succeeds: with 256-byte copies and
  descriptor offset 250 the three fields are the bytes 2 to 9, 26 to 33 and 34 to 41
  behind the buffer.
\<close>

lemma read_metadata_past_buffer:
  "dump_handle_read_metadata overrun_source small_handle behind =
     Inr (small_handle
       \<lparr> encrypted_metadata1_offset :=
            (le_word (map behind [26..<34]) AND 0x0000ffffffffffff) * 512,
         encrypted_metadata2_offset :=
            (le_word (map behind [34..<42]) AND 0x0000ffffffffffff) * 512,
         encrypted_metadata_size := le_word (map behind [2..<10]) * 512 \<rparr>)"
proof -
  have len: "length overrun_copy = 256"
    by (simp add: overrun_copy_def)
  have reads:
    "file_read overrun_source (metadata_offsets small_handle ! 0)
       (unat (metadata_size small_handle)) = Inr overrun_copy"
    "file_read overrun_source (metadata_offsets small_handle ! Suc 0)
       (unat (metadata_size small_handle)) = Inr (replicate 256 0)"
    "file_read overrun_source (metadata_offsets small_handle ! 2)
       (unat (metadata_size small_handle)) = Inr (replicate 256 0)"
    "file_read overrun_source (metadata_offsets small_handle ! 3)
       (unat (metadata_size small_handle)) = Inr (replicate 256 0)"
    by (simp_all add: file_read_def overrun_source_def small_handle_def len)
  have t: "le_word (take 8 (drop 16 overrun_copy)) = (1 :: u64)"
    and d: "le_word (take 4 (drop 220 overrun_copy)) = (250 :: u32)"
    by (simp_all add: overrun_copy_def)
  have first: "read_metadata_copy metadata_scan_start 0 (heap_buffer overrun_copy behind) =
      \<lparr> highest_transaction_id = 1, best_metadata_index = 0,
        scan_encrypted_metadata_size = le_word (map behind [2..<10]),
        scan_encrypted_metadata1_offset = le_word (map behind [26..<34]),
        scan_encrypted_metadata2_offset = le_word (map behind [34..<42]) \<rparr>"
    by (simp add: read_metadata_copy_def Let_def copy_to_uint64_little_endian_def
        copy_to_uint32_little_endian_def memory_get_heap_buffer memory_get_behind len t d
        metadata_scan_start_def del: upt_Suc map_upt_Suc)
  have zero: "block_transaction_identifier (heap_buffer (replicate 256 0) behind) = 0"
  proof -
    have "take 8 (drop 16 (replicate 256 (0 :: u8))) = replicate 8 0" by simp
    then show ?thesis
      by (simp add: block_transaction_identifier_def memory_get_heap_buffer)
  qed
  have rest: "read_metadata_copy scan j (heap_buffer (replicate 256 0) behind) = scan"
    for scan j
    by (rule read_metadata_copy_not_higher) (simp add: zero)
  have "read_metadata_copies overrun_source small_handle behind metadata_scan_start
          [0, 1, 2, 3] =
        Inr \<lparr> highest_transaction_id = 1, best_metadata_index = 0,
              scan_encrypted_metadata_size = le_word (map behind [2..<10]),
              scan_encrypted_metadata1_offset = le_word (map behind [26..<34]),
              scan_encrypted_metadata2_offset = le_word (map behind [34..<42]) \<rparr>"
    by (simp add: reads first rest del: upt_Suc map_upt_Suc)
  then show ?thesis
    by (simp add: dump_handle_read_metadata_def small_handle_def dump_handle_initialize_def
        del: upt_Suc map_upt_Suc)
qed

lemma bit_iteration_xor:
  "crc32_bit_iteration p (a XOR b) = crc32_bit_iteration p a XOR crc32_bit_iteration p b"
  unfolding crc32_bit_iteration_reference
  by (rule bit_word_eqI) (auto simp: bit_xor_iff bit_drop_bit_eq)

lemma bit_iterations_xor:
  "(crc32_bit_iteration p ^^ k) (a XOR b) =
   (crc32_bit_iteration p ^^ k) a XOR (crc32_bit_iteration p ^^ k) b"
  by (induction k) (simp_all add: bit_iteration_xor)

lemma bit_iterations_high:
  "k \<le> 8 \<Longrightarrow> (crc32_bit_iteration p ^^ k) (push_bit 8 y) = drop_bit k (push_bit 8 y)"
proof (induction k)
  case 0
  then show ?case by simp
next
  case (Suc k)
  then have "\<not> bit (drop_bit k (push_bit 8 y)) 0"
    by (simp add: bit_drop_bit_eq bit_push_bit_iff)
  with Suc show ?case
    by (simp add: crc32_bit_iteration_reference drop_bit_drop_bit)
qed

lemma split_low_byte: "(x :: u32) = (x AND 0xFF) XOR push_bit 8 (drop_bit 8 x)"
proof (rule bit_word_eqI)
  fix n assume "n < LENGTH(32)"
  have m: "(0xFF :: u32) = mask 8" by (simp add: mask_eq_exp_minus_1)
  show "bit x n = bit ((x AND 0xFF) XOR push_bit 8 (drop_bit 8 x)) n"
    unfolding m
    by (auto simp: bit_xor_iff bit_and_iff bit_mask_iff bit_push_bit_iff bit_drop_bit_eq
        dest: bit_imp_le_length)
qed

lemma table_step_is_eight_bit_iterations:
  "reference_table p ! unat (x AND 0xFF) XOR drop_bit 8 x = (crc32_bit_iteration p ^^ 8) x"
proof -
  have "x AND 0xFF \<le> 0xFF" by (rule word_and_le1)
  then have lt: "unat (x AND 0xFF) < 256"
    by (simp add: word_le_nat_alt)
  then have t: "reference_table p ! unat (x AND 0xFF) = (crc32_bit_iteration p ^^ 8) (x AND 0xFF)"
    by (simp add: reference_table_def crc32_bit_iteration_reference del: upt_Suc)
  have "(crc32_bit_iteration p ^^ 8) x =
        (crc32_bit_iteration p ^^ 8) (x AND 0xFF) XOR
        (crc32_bit_iteration p ^^ 8) (push_bit 8 (drop_bit 8 x))"
    by (subst split_low_byte [of x]) (rule bit_iterations_xor)
  also have "(crc32_bit_iteration p ^^ 8) (push_bit 8 (drop_bit 8 x)) = drop_bit 8 x"
  proof -
    have "drop_bit 8 (push_bit 8 (drop_bit 8 x)) = drop_bit 8 x"
      by (rule bit_word_eqI)
        (auto simp: bit_drop_bit_eq bit_push_bit_iff dest: bit_imp_le_length)
    then show ?thesis by (simp add: bit_iterations_high)
  qed
  finally show ?thesis using t by simp
qed

lemma bit_iteration_inj:
  assumes "bit p 31" "crc32_bit_iteration p a = crc32_bit_iteration p b"
  shows "a = b"
proof -
  have top: "bit (crc32_bit_iteration p c) 31 \<longleftrightarrow> bit c 0" for c
    using assms(1)
    by (auto simp: crc32_bit_iteration_reference bit_xor_iff bit_drop_bit_eq
        dest: bit_imp_le_length)
  from assms(2) have lsb: "bit a 0 \<longleftrightarrow> bit b 0"
    using top [of a] top [of b] by simp
  have cancel: "x = y" if "x XOR p = y XOR p" for x y :: u32
  proof -
    from that have "(x XOR p) XOR p = (y XOR p) XOR p" by simp
    then show ?thesis by (simp add: xor.assoc)
  qed
  from lsb assms(2) have d: "drop_bit 1 a = drop_bit 1 b"
    by (auto simp: crc32_bit_iteration_reference dest: cancel split: if_splits)
  show ?thesis
  proof (rule bit_word_eqI)
    fix n assume "n < LENGTH(32)"
    show "bit a n = bit b n"
    proof (cases n)
      case 0
      with lsb show ?thesis by simp
    next
      case (Suc m)
      have "bit (drop_bit 1 a) m = bit (drop_bit 1 b) m" using d by simp
      then show ?thesis by (simp add: Suc bit_drop_bit_eq)
    qed
  qed
qed

lemma bit_iterations_inj:
  "bit p 31 \<Longrightarrow> (crc32_bit_iteration p ^^ k) a = (crc32_bit_iteration p ^^ k) b \<Longrightarrow> a = b"
  by (induction k arbitrary: a b) (auto dest: bit_iteration_inj)

lemma byte_step_is_eight_bit_iterations:
  "reference_table p ! unat ((c XOR ucast (b :: u8)) AND 0xFF) XOR drop_bit 8 c =
     (crc32_bit_iteration p ^^ 8) (c XOR ucast b)"
proof -
  have "drop_bit 8 (ucast b :: u32) = 0"
    by (rule bit_word_eqI) (auto simp: bit_drop_bit_eq bit_ucast_iff dest: bit_imp_le_length)
  then have "drop_bit 8 (c XOR ucast b) = drop_bit 8 c"
    by (simp add: drop_bit_xor)
  then show ?thesis
    using table_step_is_eight_bit_iterations [of p "c XOR ucast b"] by simp
qed

lemma reference_crc_inj:
  assumes "bit p 31"
    and "reference_crc (reference_table p) a bs = reference_crc (reference_table p) b bs"
  shows "a = b"
  using assms(2)
proof (induction bs arbitrary: a b)
  case Nil
  then show ?case by simp
next
  case (Cons x xs)
  from Cons.prems have "reference_crc (reference_table p)
        ((crc32_bit_iteration p ^^ 8) (a XOR ucast x)) xs =
      reference_crc (reference_table p) ((crc32_bit_iteration p ^^ 8) (b XOR ucast x)) xs"
    by (simp only: reference_crc.simps byte_step_is_eight_bit_iterations)
  then have
    "(crc32_bit_iteration p ^^ 8) (a XOR ucast x) = (crc32_bit_iteration p ^^ 8) (b XOR ucast x)"
    by (rule Cons.IH)
  then have "a XOR ucast x = b XOR ucast x"
    by (rule bit_iterations_inj [OF assms(1)])
  then have "(a XOR ucast x) XOR ucast x = (b XOR ucast x) XOR ucast x" by simp
  then show ?case by (simp add: xor.assoc)
qed

lemma weak_crc32_initial_value_inj:
  "reference_crc (reference_table 0x82F63B78) a bs =
   reference_crc (reference_table 0x82F63B78) b bs \<longleftrightarrow> a = b"
proof
  assume "reference_crc (reference_table 0x82F63B78) a bs =
    reference_crc (reference_table 0x82F63B78) b bs"
  moreover have "bit (0x82F63B78 :: u32) 31" by simp
  ultimately show "a = b" by (rule reference_crc_inj [rotated])
qed simp

lemma calculate_weak_crc32_sound:
  "crc32_statics_sound st \<Longrightarrow>
   dump_handle_calculate_weak_crc32 st buffer iv =
     (reference_crc (reference_table 0x82F63B78) iv buffer, crc32_statics_built)"
  by (auto simp: crc32_statics_sound_def crc32_statics_built_def
      calculate_weak_crc32_at_start calculate_weak_crc32_initialized)

lemma crc32_statics_sound_simps [simp]:
  "crc32_statics_sound crc32_statics_at_start" "crc32_statics_sound crc32_statics_built"
  by (simp_all add: crc32_statics_sound_def)

lemma crc32_statics_after_sound [simp]: "crc32_statics_sound (crc32_statics_after earlier)"
  using crc32_statics_after_cases [of earlier]
  by (auto simp: crc32_statics_sound_def crc32_statics_built_def)

lemma length_memory_get [simp]: "length (memory_get m offset n) = n"
  by (simp add: memory_get_def)

lemma nth_memory_get [simp]: "i < n \<Longrightarrow> memory_get m offset n ! i = m (offset + i)"
  by (simp add: memory_get_def)

lemma take_memory_get: "k \<le> n \<Longrightarrow> take k (memory_get m offset n) = memory_get m offset k"
  by (rule nth_equalityI) simp_all

lemma drop_memory_get: "drop k (memory_get m offset n) = memory_get m (offset + k) (n - k)"
  by (rule nth_equalityI) (simp_all add: add.assoc)

lemma memory_get_memory_put_same:
  "memory_get (memory_put m offset bytes) offset (length bytes) = bytes"
  by (rule nth_equalityI) (simp_all add: memory_put_def)

lemma memory_get_memory_put_other:
  "offset + n \<le> position \<or> position + length bytes \<le> offset \<Longrightarrow>
   memory_get (memory_put m position bytes) offset n = memory_get m offset n"
  by (rule nth_equalityI) (auto simp: memory_put_def)

lemma correct_metadata_block_rewrites:
  assumes "64 < block_descriptor_offset metadata_data"
    and "64 + (block_descriptor_offset metadata_data - 64) + 48 \<le> metadata_size h"
    and "crc32_statics_sound st"
  shows "correct_metadata_block h st metadata_data e1 e2 =
     (let patched =
            memory_put
              (memory_put metadata_data
                 (unat (64 + (block_descriptor_offset metadata_data - 64) + 32))
                 (le_bytes 8 (e1 div ucast (dump_block_size h))))
              (unat (64 + (block_descriptor_offset metadata_data - 64) + 40))
              (le_bytes 8 (e2 div ucast (dump_block_size h)))
      in (memory_put patched 0
            (le_bytes 4 (reference_crc (reference_table 0x82F63B78) 0xffffffff
                           (memory_get patched 8 8184))),
          crc32_statics_built))"
  using assms
  by (simp add: correct_metadata_block_def Let_def block_descriptor_offset_def
      copy_to_uint32_little_endian_def copy_from_uint64_little_endian_def
      copy_from_uint32_little_endian_def calculate_weak_crc32_sound add.commute)


text \<open>
  Claim C4, as the code has it. Where \<open>correct_metadata_block\<close> rewrites a block at all
  (descriptor offset above 64 and the 32-bit sum \<open>64 + actual_offset + 48\<close> within
  \<open>metadata_size\<close>), the checksum it stores at \<open>[0..4)\<close> is the weak CRC-32 of the 8184
  bytes from index 8 with the initial value \<open>0xffffffff\<close>, for every \<open>metadata_size\<close>
  and whatever the block holds at \<open>[4..8)\<close>. So with \<open>metadata_size = 8192\<close> the block
  written to the destination carries the checksum of the specification (bytes
  \<open>[8 .. metadata_size)\<close>, initial value read from \<open>[4..8)\<close>) exactly when its field
  \<open>[4..8)\<close> is \<open>0xffffffff\<close>.
\<close>

theorem rewritten_metadata_checksum:
  assumes "64 < block_descriptor_offset metadata_data"
    and "64 + (block_descriptor_offset metadata_data - 64) + 48 \<le> metadata_size h"
    and "corrected =
           fst (correct_metadata_block h (crc32_statics_after earlier) metadata_data e1 e2)"
  shows "le_word (memory_get corrected 0 4) =
           reference_crc (reference_table 0x82F63B78) 0xffffffff (memory_get corrected 8 8184)
       \<and> (metadata_size h = 8192 \<longrightarrow>
            (metadata_block_checksum_valid (memory_get corrected 0 8192)
               \<longleftrightarrow> le_word (memory_get corrected 4 4) = (0xffffffff :: u32)))"
proof -
  let ?crc = "reference_crc (reference_table 0x82F63B78)"
  define patched where "patched =
     memory_put
       (memory_put metadata_data
          (unat (64 + (block_descriptor_offset metadata_data - 64) + 32))
          (le_bytes 8 (e1 div ucast (dump_block_size h))))
       (unat (64 + (block_descriptor_offset metadata_data - 64) + 40))
       (le_bytes 8 (e2 div ucast (dump_block_size h)))"
  have corrected: "corrected =
      memory_put patched 0 (le_bytes 4 (?crc 0xffffffff (memory_get patched 8 8184)))"
    unfolding assms(3) patched_def
    by (simp add: correct_metadata_block_rewrites [OF assms(1,2)] Let_def)
  have stored: "memory_get corrected 0 4 = le_bytes 4 (?crc 0xffffffff (memory_get patched 8 8184))"
    unfolding corrected
    using memory_get_memory_put_same
      [of patched 0 "le_bytes 4 (?crc 0xffffffff (memory_get patched 8 8184))"]
    by simp
  have data: "memory_get corrected 8 8184 = memory_get patched 8 8184"
    unfolding corrected by (rule memory_get_memory_put_other) simp
  have 1: "le_word (memory_get corrected 0 4) = ?crc 0xffffffff (memory_get corrected 8 8184)"
    by (simp add: stored data)
  have 2: "metadata_block_checksum_valid (memory_get corrected 0 8192)
             \<longleftrightarrow> le_word (memory_get corrected 4 4) = (0xffffffff :: u32)"
  proof -
    have "metadata_block_checksum_valid (memory_get corrected 0 8192) \<longleftrightarrow>
          le_word (memory_get corrected 0 4) =
            ?crc (le_word (memory_get corrected 4 4)) (memory_get corrected 8 8184)"
      by (simp add: metadata_block_checksum_valid_def take_memory_get drop_memory_get)
    also have "\<dots> \<longleftrightarrow> (0xffffffff :: u32) = le_word (memory_get corrected 4 4)"
      unfolding 1 by (rule weak_crc32_initial_value_inj)
    finally show ?thesis by auto
  qed
  from 1 2 show ?thesis by simp
qed

lemma length_plain_block [simp]: "length plain_block = 8192"
  by (simp add: plain_block_def)

lemma plain_block_descriptor_offset:
  "block_descriptor_offset (heap_buffer plain_block behind) = 100"
  by (simp add: block_descriptor_offset_def memory_get_heap_buffer) (simp add: plain_block_def)

lemma crc32_statics_after_Nil [simp]: "crc32_statics_after [] = crc32_statics_at_start"
  by (simp add: crc32_statics_after_def)

theorem rewritten_metadata_checksum_witness:
  "64 < block_descriptor_offset (heap_buffer plain_block zero_memory)
   \<and> 64 + (block_descriptor_offset (heap_buffer plain_block zero_memory) - 64) + 48
        \<le> metadata_size plain_handle
   \<and> metadata_size plain_handle = 8192
   \<and> le_word (memory_get plain_corrected 0 4) =
       reference_crc (reference_table 0x82F63B78) 0xffffffff (memory_get plain_corrected 8 8184)
   \<and> le_word (memory_get plain_corrected 4 4) = (0 :: u32)
   \<and> \<not> metadata_block_checksum_valid (memory_get plain_corrected 0 8192)"
proof -
  have guard: "64 < block_descriptor_offset (heap_buffer plain_block zero_memory)"
    "64 + (block_descriptor_offset (heap_buffer plain_block zero_memory) - 64) + 48
        \<le> metadata_size plain_handle"
    and size: "metadata_size plain_handle = 8192"
    by (simp_all add: plain_block_descriptor_offset plain_handle_def)
  have corrected: "plain_corrected =
      fst (correct_metadata_block plain_handle (crc32_statics_after [])
             (heap_buffer plain_block zero_memory) 36864 53248)"
    by (simp add: plain_corrected_def)
  note chk = rewritten_metadata_checksum [OF guard corrected]
  have field: "le_word (memory_get plain_corrected 4 4) = (0 :: u32)"
  proof -
    have "memory_get plain_corrected 4 4 = memory_get (heap_buffer plain_block zero_memory) 4 4"
      unfolding plain_corrected_def
      by (simp add: correct_metadata_block_rewrites [OF guard] Let_def
          plain_block_descriptor_offset memory_get_memory_put_other)
    also have "\<dots> = replicate 4 0"
      by (simp add: memory_get_heap_buffer) (simp add: plain_block_def)
    finally show ?thesis by simp
  qed
  from chk size field have "\<not> metadata_block_checksum_valid (memory_get plain_corrected 0 8192)"
    by simp
  with guard size chk field show ?thesis by (intro conjI) simp_all
qed

























lemma length_s4_parts [simp]:
  "length s4_header = 512" "length s4_block_data = 8184" "length (s4_block iv) = 8192"
  "length (s4_source iv) = 835584"
  by (simp_all add: s4_header_def s4_block_data_def s4_block_def s4_source_def)




lemma length_s4_blank_source [simp]: "length s4_blank_source = 835584"
  by (simp add: s4_blank_source_def)




















end
